theory Spec2Isabelle
  imports Complex_Main
begin

section \<open>JavaScript values used by the game\<close>

text \<open>
  The board arrays of the program hold \<^verbatim>\<open>null\<close> (an empty slot) or a string marker
  (\<^verbatim>\<open>'X'\<close>, \<^verbatim>\<open>'O'\<close>); reading an array outside its bounds yields \<^verbatim>\<open>undefined\<close>.
  Tokens handed in by a caller (a side marker, a difficulty) may be any of these.
\<close>

datatype jsval = Undefined | Null | Str string

type_synonym board = "jsval list"

text \<open>Array read \<^verbatim>\<open>board[i]\<close> for a loop index or a constant index.\<close>

definition cell :: "board \<Rightarrow> nat \<Rightarrow> jsval" where
  "cell b i = (if i < length b then b ! i else Undefined)"

text \<open>Array read \<^verbatim>\<open>this.cells[i]\<close> for an integer-valued number computed from caller input.\<close>

definition cell_at :: "board \<Rightarrow> int \<Rightarrow> jsval" where
  "cell_at b i = (if 0 \<le> i \<and> i < int (length b) then b ! nat i else Undefined)"

text \<open>
  Scores are JavaScript numbers: integers here, together with the two infinities that the
  search uses as initial bounds.
\<close>

datatype jsnum = NegInf | Fin int | PosInf

instantiation jsnum :: linorder
begin

fun less_eq_jsnum :: "jsnum \<Rightarrow> jsnum \<Rightarrow> bool" where
  "less_eq_jsnum NegInf _ = True"
| "less_eq_jsnum (Fin _) NegInf = False"
| "less_eq_jsnum (Fin x) (Fin y) = (x \<le> y)"
| "less_eq_jsnum (Fin _) PosInf = True"
| "less_eq_jsnum PosInf PosInf = True"
| "less_eq_jsnum PosInf _ = False"

definition less_jsnum :: "jsnum \<Rightarrow> jsnum \<Rightarrow> bool" where
  "less_jsnum x y = (x \<le> y \<and> \<not> y \<le> x)"

instance
proof
  fix x y z :: jsnum
  show "(x < y) = (x \<le> y \<and> \<not> y \<le> x)" by (simp add: less_jsnum_def)
  show "x \<le> x" by (cases x) auto
  show "x \<le> y \<Longrightarrow> y \<le> z \<Longrightarrow> x \<le> z" by (cases x; cases y; cases z) auto
  show "x \<le> y \<Longrightarrow> y \<le> x \<Longrightarrow> x = y" by (cases x; cases y) auto
  show "x \<le> y \<or> y \<le> x" by (cases x; cases y) auto
qed

end

section \<open>rules.js\<close>

definition WIN_COMBINATIONS :: "(nat \<times> nat \<times> nat) list" where
  "WIN_COMBINATIONS =
     [(0, 1, 2), (3, 4, 5), (6, 7, 8),
      (0, 3, 6), (1, 4, 7), (2, 5, 8),
      (0, 4, 8), (2, 4, 6)]"

text \<open>\<^verbatim>\<open>checkWin\<close> returns the first combination held by the player, or \<^verbatim>\<open>null\<close>.\<close>

definition checkWin :: "board \<Rightarrow> jsval \<Rightarrow> (nat \<times> nat \<times> nat) option" where
  "checkWin b player =
     find (\<lambda>(x, y, z). cell b x = player \<and> cell b y = player \<and> cell b z = player)
       WIN_COMBINATIONS"

definition checkDraw :: "board \<Rightarrow> bool" where
  "checkDraw b =
     (if checkWin b (Str ''X'') \<noteq> None \<or> checkWin b (Str ''O'') \<noteq> None then False
      else list_all (\<lambda>c. c \<noteq> Null) b)"

definition validateMove :: "board \<Rightarrow> int \<Rightarrow> int \<Rightarrow> bool" where
  "validateMove b row col =
     (if row < 0 \<or> row > 2 \<or> col < 0 \<or> col > 2 then False
      else cell_at b (row * 3 + col) = Null)"

definition validateMoveByIndex :: "board \<Rightarrow> int \<Rightarrow> bool" where
  "validateMoveByIndex b index = (if index < 0 \<or> index > 8 then False else cell_at b index = Null)"

definition getGameResult :: "board \<Rightarrow> string" where
  "getGameResult b =
     (if checkWin b (Str ''X'') \<noteq> None then ''PLAYER_WON''
      else if checkWin b (Str ''O'') \<noteq> None then ''AI_WON''
      else if checkDraw b then ''DRAW''
      else ''ONGOING'')"

section \<open>board.js: the Board class\<close>

record Board =
  cells :: board
  currentPlayer :: string
  status :: string

definition initialize :: "Board \<Rightarrow> Board" where
  "initialize bd = bd\<lparr>cells := replicate 9 Null, currentPlayer := ''X'', status := ''ONGOING''\<rparr>"

definition reset :: "Board \<Rightarrow> Board" where
  "reset bd = initialize bd"

definition new_Board :: Board where
  "new_Board = initialize \<lparr>cells = [], currentPlayer = '''', status = ''''\<rparr>"

definition toIndex :: "int \<Rightarrow> int \<Rightarrow> int" where
  "toIndex row col = row * 3 + col"

text \<open>
  The remainder operator \<^verbatim>\<open>%\<close> of JavaScript truncates towards zero: its result has the
  sign of the dividend. \<^verbatim>\<open>Math.floor(index / 3)\<close> is the floor division of HOL.
\<close>

definition js_rem :: "int \<Rightarrow> int \<Rightarrow> int" where
  "js_rem x y = sgn x * (\<bar>x\<bar> mod \<bar>y\<bar>)"

definition toCoords :: "int \<Rightarrow> int \<times> int" where
  "toCoords index = (index div 3, js_rem index 3)"

definition isValid :: "int \<Rightarrow> int \<Rightarrow> bool" where
  "isValid row col = (row \<ge> 0 \<and> row \<le> 2 \<and> col \<ge> 0 \<and> col \<le> 2)"

definition getCell :: "Board \<Rightarrow> int \<Rightarrow> int \<Rightarrow> jsval" where
  "getCell bd row col =
     (if \<not> isValid row col then Undefined else cell_at (cells bd) (toIndex row col))"

definition getCellByIndex :: "Board \<Rightarrow> int \<Rightarrow> jsval" where
  "getCellByIndex bd index =
     (if index < 0 \<or> index > 8 then Undefined else cell_at (cells bd) index)"

definition isEmpty :: "Board \<Rightarrow> int \<Rightarrow> int \<Rightarrow> bool" where
  "isEmpty bd row col =
     (if \<not> isValid row col then False else cell_at (cells bd) (toIndex row col) = Null)"

definition isOccupied :: "Board \<Rightarrow> int \<Rightarrow> int \<Rightarrow> bool" where
  "isOccupied bd row col =
     (if \<not> isValid row col then False else cell_at (cells bd) (toIndex row col) \<noteq> Null)"

definition isFull :: "Board \<Rightarrow> bool" where
  "isFull bd = list_all (\<lambda>c. c \<noteq> Null) (cells bd)"

text \<open>
  \<^verbatim>\<open>placeMove\<close> returns its boolean together with the board object after the call. The
  write \<^verbatim>\<open>this.cells[i] = player\<close> is reached only after \<^verbatim>\<open>isEmpty\<close> has read \<^verbatim>\<open>null\<close> at
  \<^verbatim>\<open>i\<close>, hence inside the array.
\<close>

definition placeMove :: "Board \<Rightarrow> int \<Rightarrow> int \<Rightarrow> jsval \<Rightarrow> bool \<times> Board" where
  "placeMove bd row col player =
     (if \<not> isValid row col then (False, bd)
      else if \<not> isEmpty bd row col then (False, bd)
      else if player \<noteq> Str ''X'' \<and> player \<noteq> Str ''O'' then (False, bd)
      else (True, bd\<lparr>cells := (cells bd)[nat (toIndex row col) := player]\<rparr>))"

definition placeMoveByIndex :: "Board \<Rightarrow> int \<Rightarrow> jsval \<Rightarrow> bool \<times> Board" where
  "placeMoveByIndex bd index player =
     (let coords = toCoords index in placeMove bd (fst coords) (snd coords) player)"

definition getCurrentPlayer :: "Board \<Rightarrow> string" where
  "getCurrentPlayer bd = currentPlayer bd"

definition switchTurn :: "Board \<Rightarrow> Board" where
  "switchTurn bd = bd\<lparr>currentPlayer := (if currentPlayer bd = ''X'' then ''O'' else ''X'')\<rparr>"

definition getStatus :: "Board \<Rightarrow> string" where
  "getStatus bd = status bd"

definition setStatus :: "Board \<Rightarrow> string \<Rightarrow> Board" where
  "setStatus bd s = bd\<lparr>status := s\<rparr>"

definition isGameOver :: "Board \<Rightarrow> bool" where
  "isGameOver bd = (status bd \<noteq> ''ONGOING'')"

definition getBoard :: "Board \<Rightarrow> board" where
  "getBoard bd = cells bd"

section \<open>ai.js\<close>

definition getAvailableMoves :: "board \<Rightarrow> nat list" where
  "getAvailableMoves b = filter (\<lambda>i. cell b i = Null) [0..<9]"

text \<open>
  \<^verbatim>\<open>Math.random()\<close> is a parameter \<open>r\<close>, a number from 0 (inclusive) to 1 (exclusive); for
  such an \<open>r\<close> the index computed lies inside \<^verbatim>\<open>available\<close>. For any other \<open>r\<close>, which
  \<^verbatim>\<open>Math.random()\<close> never yields, the model answers \<open>None\<close>.
\<close>

definition getRandomMove :: "board \<Rightarrow> real \<Rightarrow> nat option" where
  "getRandomMove b r =
     (let available = getAvailableMoves b in
      if length available = 0 then None
      else (let randomIndex = nat \<lfloor>r * real (length available)\<rfloor> in
            if randomIndex < length available then Some (available ! randomIndex) else None))"

text \<open>
  \<^verbatim>\<open>minimax\<close> writes its trial placements into the array it is given, so the model returns
  the array after the call next to the score. The recursion is bounded by a fuel argument
  that counts the nesting of calls allowed; \<open>None\<close> means the fuel ran out. The two
  \<^verbatim>\<open>for\<close> loops are \<open>max_loop\<close> and \<open>min_loop\<close>; \<open>call\<close> is the recursive call of \<^verbatim>\<open>minimax\<close>.
\<close>

fun max_loop ::
  "(board \<Rightarrow> int \<Rightarrow> bool \<Rightarrow> jsnum \<Rightarrow> jsnum \<Rightarrow> (jsnum \<times> board) option) \<Rightarrow>
   board \<Rightarrow> nat list \<Rightarrow> int \<Rightarrow> jsnum \<Rightarrow> jsnum \<Rightarrow> jsnum \<Rightarrow> (jsnum \<times> board) option"
where
  "max_loop call b [] depth alpha beta maxScore = Some (maxScore, b)"
| "max_loop call b (move # rest) depth alpha beta maxScore =
     (case call (b[move := Str ''O'']) (depth + 1) False alpha beta of
        None \<Rightarrow> None
      | Some (score, b') \<Rightarrow>
          (let b'' = b'[move := Null];
               maxScore' = max maxScore score;
               alpha' = max alpha score
           in if beta \<le> alpha' then Some (maxScore', b'')
              else max_loop call b'' rest depth alpha' beta maxScore'))"

fun min_loop ::
  "(board \<Rightarrow> int \<Rightarrow> bool \<Rightarrow> jsnum \<Rightarrow> jsnum \<Rightarrow> (jsnum \<times> board) option) \<Rightarrow>
   board \<Rightarrow> nat list \<Rightarrow> int \<Rightarrow> jsnum \<Rightarrow> jsnum \<Rightarrow> jsnum \<Rightarrow> (jsnum \<times> board) option"
where
  "min_loop call b [] depth alpha beta minScore = Some (minScore, b)"
| "min_loop call b (move # rest) depth alpha beta minScore =
     (case call (b[move := Str ''X'']) (depth + 1) True alpha beta of
        None \<Rightarrow> None
      | Some (score, b') \<Rightarrow>
          (let b'' = b'[move := Null];
               minScore' = min minScore score;
               beta' = min beta score
           in if beta' \<le> alpha then Some (minScore', b'')
              else min_loop call b'' rest depth alpha beta' minScore'))"

primrec minimax ::
  "nat \<Rightarrow> board \<Rightarrow> int \<Rightarrow> bool \<Rightarrow> jsnum \<Rightarrow> jsnum \<Rightarrow> (jsnum \<times> board) option"
where
  "minimax 0 b depth isMaximizing alpha beta = None"
| "minimax (Suc n) b depth isMaximizing alpha beta =
     (if checkWin b (Str ''O'') \<noteq> None then Some (Fin (10 - depth), b)
      else if checkWin b (Str ''X'') \<noteq> None then Some (Fin (depth - 10), b)
      else if checkDraw b then Some (Fin 0, b)
      else if isMaximizing
        then max_loop (minimax n) b (getAvailableMoves b) depth alpha beta NegInf
        else min_loop (minimax n) b (getAvailableMoves b) depth alpha beta PosInf)"

text \<open>
  The loop of \<^verbatim>\<open>getMinimaxMove\<close> over \<^verbatim>\<open>available\<close>, on the copy \<^verbatim>\<open>boardCopy\<close>. The result is
  \<open>None\<close> when the fuel ran out, \<open>Some None\<close> for \<^verbatim>\<open>null\<close>, \<open>Some (Some m)\<close> for the move \<open>m\<close>.
\<close>

fun getMinimaxMove_loop ::
  "nat \<Rightarrow> board \<Rightarrow> nat list \<Rightarrow> nat option \<Rightarrow> jsnum \<Rightarrow> nat option option"
where
  "getMinimaxMove_loop n boardCopy [] bestMove bestScore = Some bestMove"
| "getMinimaxMove_loop n boardCopy (move # rest) bestMove bestScore =
     (case minimax n (boardCopy[move := Str ''O'']) 0 False NegInf PosInf of
        None \<Rightarrow> None
      | Some (score, b') \<Rightarrow>
          (let b'' = b'[move := Null] in
           if score > bestScore then getMinimaxMove_loop n b'' rest (Some move) score
           else getMinimaxMove_loop n b'' rest bestMove bestScore))"

definition getMinimaxMove :: "nat \<Rightarrow> board \<Rightarrow> nat option option" where
  "getMinimaxMove n b =
     (let available = getAvailableMoves b in
      if length available = 0 then Some None
      else getMinimaxMove_loop n b available None NegInf)"

definition getMove :: "nat \<Rightarrow> board \<Rightarrow> jsval \<Rightarrow> real \<Rightarrow> nat option option" where
  "getMove n b difficulty r =
     (if difficulty = Str ''EASY'' then Some (getRandomMove b r)
      else getMinimaxMove n b)"

section \<open>gameEngine.js\<close>

text \<open>
  The engine is one object holding a Board, next to the stores it publishes to. The
  function \<^verbatim>\<open>handleAIMove\<close> is asynchronous: it runs up to its \<^verbatim>\<open>await\<close> when called, and
  its remainder runs later, when the timer of the delay fires. \<open>pendingAI\<close> counts the calls
  suspended at the \<^verbatim>\<open>await\<close>; each of them resumes with the same code and reads the engine
  as it is then. Everything else runs to completion, one call after the other.
\<close>

record Engine =
  this_board :: Board
  store_board :: board
  store_currentPlayer :: string
  store_gameStatus :: string
  store_difficulty :: jsval
  store_gameStarted :: bool
  store_aiThinking :: bool
  store_winningCombination :: "(nat \<times> nat \<times> nat) option"
  pendingAI :: nat

definition syncStores :: "Engine \<Rightarrow> Engine" where
  "syncStores e =
     e\<lparr>store_board := getBoard (this_board e),
       store_currentPlayer := getCurrentPlayer (this_board e),
       store_gameStatus := getStatus (this_board e)\<rparr>"

text \<open>The module as loaded: a new Board, the stores at their initial values.\<close>

definition gameEngine :: Engine where
  "gameEngine =
     \<lparr>this_board = new_Board, store_board = replicate 9 Null, store_currentPlayer = ''X'',
      store_gameStatus = ''ONGOING'', store_difficulty = Str ''HARD'', store_gameStarted = False,
      store_aiThinking = False, store_winningCombination = None, pendingAI = 0\<rparr>"

definition initializeGame :: "Engine \<Rightarrow> jsval \<Rightarrow> Engine" where
  "initializeGame e selectedDifficulty =
     syncStores
       (e\<lparr>this_board := initialize (this_board e),
          store_difficulty := (if selectedDifficulty = Undefined then Str ''HARD''
                               else selectedDifficulty),
          store_gameStarted := True, store_aiThinking := False,
          store_winningCombination := None\<rparr>)"

definition checkGameEnd :: "Engine \<Rightarrow> bool \<times> Engine" where
  "checkGameEnd e =
     (let boardState = getBoard (this_board e);
          result = getGameResult boardState
      in if result \<noteq> ''ONGOING''
         then (let e1 = e\<lparr>this_board := setStatus (this_board e) result\<rparr>;
                   e2 = (if result = ''PLAYER_WON''
                           then e1\<lparr>store_winningCombination := checkWin boardState (Str ''X'')\<rparr>
                         else if result = ''AI_WON''
                           then e1\<lparr>store_winningCombination := checkWin boardState (Str ''O'')\<rparr>
                         else e1)
               in (True, syncStores e2))
         else (False, e))"

text \<open>\<^verbatim>\<open>handleAIMove\<close> up to the \<^verbatim>\<open>await\<close>.\<close>

definition handleAIMove :: "Engine \<Rightarrow> Engine" where
  "handleAIMove e =
     (if isGameOver (this_board e) then e
      else if getCurrentPlayer (this_board e) \<noteq> ''O'' then e
      else e\<lparr>store_aiThinking := True, pendingAI := Suc (pendingAI e)\<rparr>)"

text \<open>
  \<^verbatim>\<open>handleAIMove\<close> after the \<^verbatim>\<open>await\<close>; \<open>n\<close> is the fuel of the search, \<open>r\<close> the value of
  \<^verbatim>\<open>Math.random()\<close> that the random strategy draws.
\<close>

definition handleAIMove_resumed :: "nat \<Rightarrow> real \<Rightarrow> Engine \<Rightarrow> Engine option" where
  "handleAIMove_resumed n r e =
     (let currentDifficulty = store_difficulty e;
          boardState = getBoard (this_board e)
      in case getMove n boardState currentDifficulty r of
           None \<Rightarrow> None
         | Some None \<Rightarrow> Some (e\<lparr>store_aiThinking := False, pendingAI := pendingAI e - 1\<rparr>)
         | Some (Some move) \<Rightarrow>
             (let bd1 = snd (placeMoveByIndex (this_board e) (int move) (Str ''O''));
                  e1 = syncStores (e\<lparr>this_board := switchTurn bd1\<rparr>);
                  e2 = snd (checkGameEnd e1)
              in Some (e2\<lparr>store_aiThinking := False, pendingAI := pendingAI e - 1\<rparr>)))"

definition handlePlayerMove :: "Engine \<Rightarrow> int \<Rightarrow> int \<Rightarrow> bool \<times> Engine" where
  "handlePlayerMove e row col =
     (if isGameOver (this_board e) then (False, e)
      else if getCurrentPlayer (this_board e) \<noteq> ''X'' then (False, e)
      else if store_aiThinking e then (False, e)
      else (case placeMove (this_board e) row col (Str ''X'') of
              (False, bd1) \<Rightarrow> (False, e\<lparr>this_board := bd1\<rparr>)
            | (True, bd1) \<Rightarrow>
                (let e1 = syncStores (e\<lparr>this_board := switchTurn bd1\<rparr>);
                     (ended, e2) = checkGameEnd e1
                 in if ended then (True, e2) else (True, handleAIMove e2))))"

definition handlePlayerMoveByIndex :: "Engine \<Rightarrow> int \<Rightarrow> bool \<times> Engine" where
  "handlePlayerMoveByIndex e index =
     (let coords = toCoords index in handlePlayerMove e (fst coords) (snd coords))"

definition resetGame :: "Engine \<Rightarrow> Engine" where
  "resetGame e =
     syncStores
       (e\<lparr>this_board := reset (this_board e), store_gameStarted := False,
          store_aiThinking := False, store_winningCombination := None\<rparr>)"

text \<open>
  What happens to the engine, in the order of the event loop: a call from the user
  interface, or the timer of a pending computer move.
\<close>

datatype event = InitializeGame jsval | PlayerMove int int | ResetGame | TimerFires real

definition step :: "nat \<Rightarrow> event \<Rightarrow> Engine \<Rightarrow> Engine option" where
  "step n ev e =
     (case ev of
        InitializeGame d \<Rightarrow> Some (initializeGame e d)
      | PlayerMove row col \<Rightarrow> Some (snd (handlePlayerMove e row col))
      | ResetGame \<Rightarrow> Some (resetGame e)
      | TimerFires r \<Rightarrow> (if pendingAI e = 0 then Some e else handleAIMove_resumed n r e))"

fun run :: "nat \<Rightarrow> event list \<Rightarrow> Engine \<Rightarrow> Engine option" where
  "run n [] e = Some e"
| "run n (ev # evs) e = (case step n ev e of None \<Rightarrow> None | Some e' \<Rightarrow> run n evs e')"

section \<open>Arrays as shared objects\<close>

text \<open>
  For the aliasing between a Board and the arrays handed out by \<^verbatim>\<open>getBoard\<close>, arrays live in
  a store: an address holds the elements of one array, and \<open>next_addr\<close> is the next address
  to be allocated. A Board object refers to its \<^verbatim>\<open>cells\<close> array by address.
\<close>

record heap =
  arrays :: "nat \<Rightarrow> jsval list option"
  next_addr :: nat

record Board_obj =
  cells_ref :: nat
  currentPlayer_field :: string
  status_field :: string

definition deref :: "heap \<Rightarrow> nat \<Rightarrow> jsval list" where
  "deref h a = (case arrays h a of None \<Rightarrow> [] | Some xs \<Rightarrow> xs)"

text \<open>A new array (an array literal, a spread copy, \<^verbatim>\<open>Array(9).fill(null)\<close>) gets a fresh address.\<close>

definition alloc :: "heap \<Rightarrow> jsval list \<Rightarrow> nat \<times> heap" where
  "alloc h xs =
     (next_addr h, h\<lparr>arrays := (arrays h)(next_addr h \<mapsto> xs), next_addr := Suc (next_addr h)\<rparr>)"

text \<open>
  The assignment \<^verbatim>\<open>arr[i] = v\<close> for an integer-valued \<open>i\<close>: inside the array it replaces the
  element; beyond its end the array grows, the slots between reading \<^verbatim>\<open>undefined\<close>; a negative
  \<open>i\<close> sets a property and leaves the elements alone.
\<close>

definition assign_elem :: "jsval list \<Rightarrow> int \<Rightarrow> jsval \<Rightarrow> jsval list" where
  "assign_elem xs i v =
     (if i < 0 then xs
      else if nat i < length xs then xs[nat i := v]
      else xs @ replicate (nat i - length xs) Undefined @ [v])"

definition array_assign :: "heap \<Rightarrow> nat \<Rightarrow> int \<Rightarrow> jsval \<Rightarrow> heap" where
  "array_assign h a i v =
     (case arrays h a of None \<Rightarrow> h
      | Some xs \<Rightarrow> h\<lparr>arrays := (arrays h)(a \<mapsto> assign_elem xs i v)\<rparr>)"

text \<open>The Board object as the other functions of the class see it.\<close>

definition board_of :: "heap \<Rightarrow> Board_obj \<Rightarrow> Board" where
  "board_of h obj =
     \<lparr>cells = deref h (cells_ref obj), currentPlayer = currentPlayer_field obj,
      status = status_field obj\<rparr>"

text \<open>The constructor: \<^verbatim>\<open>initialize\<close> allocates the array of nine empty slots.\<close>

definition new_Board_obj :: "heap \<Rightarrow> Board_obj \<times> heap" where
  "new_Board_obj h =
     (let (a, h') = alloc h (replicate 9 Null) in
      (\<lparr>cells_ref = a, currentPlayer_field = ''X'', status_field = ''ONGOING''\<rparr>, h'))"

text \<open>\<^verbatim>\<open>getBoard\<close> returns \<^verbatim>\<open>[...this.cells]\<close>: a new array holding the elements of \<^verbatim>\<open>cells\<close>.\<close>

definition getBoard_obj :: "heap \<Rightarrow> Board_obj \<Rightarrow> nat \<times> heap" where
  "getBoard_obj h obj = alloc h (getBoard (board_of h obj))"

definition assign_all :: "heap \<Rightarrow> nat \<Rightarrow> (int \<times> jsval) list \<Rightarrow> heap" where
  "assign_all h a ws = fold (\<lambda>(i, v) h'. array_assign h' a i v) ws h"

definition empty_heap :: heap where
  "empty_heap = \<lparr>arrays = (\<lambda>a. None), next_addr = 0\<rparr>"

section \<open>Notions of the specification\<close>

text \<open>A placement is rejected for an index outside 0..8, an occupied slot or an invalid marker.\<close>

definition rejected :: "Board \<Rightarrow> int \<Rightarrow> jsval \<Rightarrow> bool" where
  "rejected bd index player =
     (index < 0 \<or> index > 8 \<or> getCellByIndex bd index \<noteq> Null \<or>
      (player \<noteq> Str ''X'' \<and> player \<noteq> Str ''O''))"

text \<open>
  A side has a winning line when one of the three rows, the three columns or the two
  diagonals of the grid holds its marker in all three slots.
\<close>

definition holds_line :: "board \<Rightarrow> jsval \<Rightarrow> nat \<Rightarrow> nat \<Rightarrow> nat \<Rightarrow> bool" where
  "holds_line b p x y z = (cell b x = p \<and> cell b y = p \<and> cell b z = p)"

definition has_line :: "board \<Rightarrow> jsval \<Rightarrow> bool" where
  "has_line b p =
     ((\<exists>r \<in> set [0..<3]. holds_line b p (3 * r) (3 * r + 1) (3 * r + 2)) \<or>
      (\<exists>c \<in> set [0..<3]. holds_line b p c (c + 3) (c + 6)) \<or>
      holds_line b p 0 4 8 \<or> holds_line b p 2 4 6)"

definition all_occupied :: "board \<Rightarrow> bool" where
  "all_occupied b = (\<forall>i \<in> set [0..<9]. cell b i \<noteq> Null)"

text \<open>
  The plain evaluation of a position, without pruning and without a window: a terminal
  position has its terminal score; any other position takes the greatest (for the maximizing
  side, starting from minus infinity) or the least (for the minimizing side, starting from
  plus infinity) of the values of all placements on the empty slots, in ascending order, each
  evaluated for the opposite role at the next depth.
\<close>

function minimax_plain :: "board \<Rightarrow> int \<Rightarrow> bool \<Rightarrow> jsnum" where
  "minimax_plain b depth isMaximizing =
     (if checkWin b (Str ''O'') \<noteq> None then Fin (10 - depth)
      else if checkWin b (Str ''X'') \<noteq> None then Fin (depth - 10)
      else if checkDraw b then Fin 0
      else if isMaximizing
        then fold max
               (map (\<lambda>move. minimax_plain (b[move := Str ''O'']) (depth + 1) False)
                  (getAvailableMoves b)) NegInf
        else fold min
               (map (\<lambda>move. minimax_plain (b[move := Str ''X'']) (depth + 1) True)
                  (getAvailableMoves b)) PosInf)"
  by pat_completeness auto
termination
proof (relation "measure (\<lambda>(b, depth, isMaximizing). length (getAvailableMoves b))")
  have dec: "length (getAvailableMoves (b[m := v])) < length (getAvailableMoves b)"
    if m: "m \<in> set (getAvailableMoves b)" and v: "v \<noteq> Null" for b m v
  proof -
    from m have "cell b m = Null" by (simp add: getAvailableMoves_def)
    then have len: "m < length b" by (simp add: cell_def split: if_splits)
    have "cell (b[m := v]) i = Null \<longleftrightarrow> i \<noteq> m \<and> cell b i = Null" for i
      using len v by (auto simp: cell_def nth_list_update)
    then have "getAvailableMoves (b[m := v]) = filter (\<lambda>i. i \<noteq> m) (getAvailableMoves b)"
      by (auto simp: getAvailableMoves_def intro: filter_cong)
    then show ?thesis using m by (simp add: length_filter_less)
  qed
  show "wf (measure (\<lambda>(b, depth, isMaximizing). length (getAvailableMoves b)))" by simp
  show "((b[x := Str ''O''], depth + 1, False), b, depth, isMaximizing)
          \<in> measure (\<lambda>(b, depth, isMaximizing). length (getAvailableMoves b))"
    if "x \<in> set (getAvailableMoves b)" for b depth isMaximizing x
    using dec [OF that, of "Str ''O''"] by simp
  show "((b[x := Str ''X''], depth + 1, True), b, depth, isMaximizing)
          \<in> measure (\<lambda>(b, depth, isMaximizing). length (getAvailableMoves b))"
    if "x \<in> set (getAvailableMoves b)" for b depth isMaximizing x
    using dec [OF that, of "Str ''X''"] by simp
qed

declare minimax_plain.simps [simp del]

text \<open>
  \<open>x_wins oToMove b\<close>: in the position \<open>b\<close>, a game in progress with \<^verbatim>\<open>'O'\<close> to move
  (\<open>oToMove\<close>) or \<^verbatim>\<open>'X'\<close> to move, the side \<^verbatim>\<open>'X'\<close> can force a win whatever \<^verbatim>\<open>'O'\<close> plays.
\<close>

function x_wins :: "bool \<Rightarrow> board \<Rightarrow> bool" where
  "x_wins oToMove b =
     (getGameResult b = ''ONGOING'' \<and>
      (if oToMove
         then list_all (\<lambda>m. x_wins False (b[m := Str ''O''])) (getAvailableMoves b)
         else list_ex (\<lambda>k. getGameResult (b[k := Str ''X'']) = ''PLAYER_WON'' \<or>
                          x_wins True (b[k := Str ''X''])) (getAvailableMoves b)))"
  by pat_completeness auto
termination
proof (relation "measure (\<lambda>(oToMove, b). length (getAvailableMoves b))")
  have dec: "length (getAvailableMoves (b[m := v])) < length (getAvailableMoves b)"
    if m: "m \<in> set (getAvailableMoves b)" and v: "v \<noteq> Null" for b m v
  proof -
    from m have "cell b m = Null" by (simp add: getAvailableMoves_def)
    then have len: "m < length b" by (simp add: cell_def split: if_splits)
    have "cell (b[m := v]) i = Null \<longleftrightarrow> i \<noteq> m \<and> cell b i = Null" for i
      using len v by (auto simp: cell_def nth_list_update)
    then have "getAvailableMoves (b[m := v]) = filter (\<lambda>i. i \<noteq> m) (getAvailableMoves b)"
      by (auto simp: getAvailableMoves_def intro: filter_cong)
    then show ?thesis using m by (simp add: length_filter_less)
  qed
  show "wf (measure (\<lambda>(oToMove, b). length (getAvailableMoves b)))" by simp
  show "((False, b[x := Str ''O'']), oToMove, b)
          \<in> measure (\<lambda>(oToMove, b). length (getAvailableMoves b))"
    if "x \<in> set (getAvailableMoves b)" for b oToMove x
    using dec [OF that, of "Str ''O''"] by simp
  show "((True, b[x := Str ''X'']), oToMove, b)
          \<in> measure (\<lambda>(oToMove, b). length (getAvailableMoves b))"
    if "x \<in> set (getAvailableMoves b)" for b oToMove x
    using dec [OF that, of "Str ''X''"] by simp
qed

declare x_wins.simps [simp del]

text \<open>The side \<^verbatim>\<open>'X'\<close> has won or can force a win.\<close>

definition lost :: "bool \<Rightarrow> board \<Rightarrow> bool" where
  "lost oToMove b = (getGameResult b = ''PLAYER_WON'' \<or> x_wins oToMove b)"

text \<open>
  \<open>ai_loses n b\<close>: from the position \<open>b\<close>, a game in progress with \<^verbatim>\<open>'O'\<close> to move, in which
  \<^verbatim>\<open>'O'\<close> plays the move of \<^verbatim>\<open>getMinimaxMove\<close> now and at each of its later turns, some
  sequence of replies of \<^verbatim>\<open>'X'\<close> ends in a win for \<^verbatim>\<open>'X'\<close>.
\<close>

inductive ai_loses :: "nat \<Rightarrow> board \<Rightarrow> bool" for n :: nat where
  loses_next:
    "getGameResult b = ''ONGOING'' \<Longrightarrow> getMinimaxMove n b = Some (Some m) \<Longrightarrow>
     getGameResult (b[m := Str ''O'']) = ''ONGOING'' \<Longrightarrow>
     k \<in> set (getAvailableMoves (b[m := Str ''O''])) \<Longrightarrow>
     getGameResult (b[m := Str ''O'', k := Str ''X'']) = ''PLAYER_WON'' \<Longrightarrow>
     ai_loses n b"
| loses_later:
    "getGameResult b = ''ONGOING'' \<Longrightarrow> getMinimaxMove n b = Some (Some m) \<Longrightarrow>
     getGameResult (b[m := Str ''O'']) = ''ONGOING'' \<Longrightarrow>
     k \<in> set (getAvailableMoves (b[m := Str ''O''])) \<Longrightarrow>
     getGameResult (b[m := Str ''O'', k := Str ''X'']) = ''ONGOING'' \<Longrightarrow>
     ai_loses n (b[m := Str ''O'', k := Str ''X'']) \<Longrightarrow>
     ai_loses n b"

text \<open>
  Legal alternating play: each move goes to an empty slot of a game in progress, and the
  sides take turns.
\<close>

fun play :: "board \<Rightarrow> bool \<Rightarrow> nat list \<Rightarrow> board option" where
  "play b oToMove [] = Some b"
| "play b oToMove (m # ms) =
     (if getGameResult b = ''ONGOING'' \<and> validateMoveByIndex b (int m)
      then play (b[m := (if oToMove then Str ''O'' else Str ''X'')]) (\<not> oToMove) ms
      else None)"

text \<open>The board with the two markers exchanged: what the other side sees as its own game.\<close>

definition swap_marker :: "jsval \<Rightarrow> jsval" where
  "swap_marker c = (if c = Str ''X'' then Str ''O'' else if c = Str ''O'' then Str ''X'' else c)"

definition swap_markers :: "board \<Rightarrow> board" where
  "swap_markers b = map swap_marker b"

text \<open>
  A game in which both sides take the move of \<^verbatim>\<open>getMinimaxMove\<close>, the side \<^verbatim>\<open>'X'\<close> on the board
  with the markers exchanged; \<open>j\<close> bounds the number of moves played, \<open>n\<close> is the fuel of
  each search. The result is the classification of the final board.
\<close>

primrec self_play :: "nat \<Rightarrow> nat \<Rightarrow> bool \<Rightarrow> board \<Rightarrow> string option" where
  "self_play n 0 oToMove b =
     (if getGameResult b \<noteq> ''ONGOING'' then Some (getGameResult b) else None)"
| "self_play n (Suc j) oToMove b =
     (if getGameResult b \<noteq> ''ONGOING'' then Some (getGameResult b)
      else if oToMove then
        (case getMinimaxMove n b of
           Some (Some m) \<Rightarrow> self_play n j False (b[m := Str ''O''])
         | _ \<Rightarrow> None)
      else
        (case getMinimaxMove n (swap_markers b) of
           Some (Some m) \<Rightarrow> self_play n j True (b[m := Str ''X''])
         | _ \<Rightarrow> None))"

text \<open>The state a caller observes after a reset: empty board, \<^verbatim>\<open>'X'\<close> to move, in progress.\<close>

definition clean_reset_state :: "Engine \<Rightarrow> bool" where
  "clean_reset_state e =
     (cells (this_board e) = replicate 9 Null \<and> currentPlayer (this_board e) = ''X'' \<and>
      status (this_board e) = ''ONGOING'' \<and> store_board e = replicate 9 Null \<and>
      store_currentPlayer e = ''X'' \<and> store_gameStatus e = ''ONGOING'')"

section \<open>Notions of the proofs\<close>

text \<open>Every call of \<open>call\<close> with enough fuel returns and hands back the array unchanged.\<close>

definition restores ::
  "(board \<Rightarrow> int \<Rightarrow> bool \<Rightarrow> jsnum \<Rightarrow> jsnum \<Rightarrow> (jsnum \<times> board) option) \<Rightarrow> nat \<Rightarrow> bool"
where
  "restores call n =
     (\<forall>b d mx a c. length (getAvailableMoves b) < n \<longrightarrow>
        (\<exists>s. call b d mx a c = Some (s, b)))"

text \<open>
  The result \<open>r\<close> of a search with window from \<open>a\<close> to \<open>c\<close> determines the value \<open>v\<close>: above
  \<open>a\<close> it is a lower bound of \<open>v\<close>, below \<open>c\<close> an upper bound.
\<close>

definition bounds :: "jsnum \<Rightarrow> jsnum \<Rightarrow> jsnum \<Rightarrow> jsnum \<Rightarrow> bool" where
  "bounds a c v r = ((a < r \<longrightarrow> r \<le> v) \<and> (r < c \<longrightarrow> v \<le> r))"

text \<open>Every call of \<open>call\<close> with enough fuel and a proper window is sound in that sense.\<close>

definition sound_call ::
  "(board \<Rightarrow> int \<Rightarrow> bool \<Rightarrow> jsnum \<Rightarrow> jsnum \<Rightarrow> (jsnum \<times> board) option) \<Rightarrow> nat \<Rightarrow> bool"
where
  "sound_call call n =
     (\<forall>b d mx a c. length (getAvailableMoves b) < n \<longrightarrow> a < c \<longrightarrow>
        (\<exists>r. call b d mx a c = Some (r, b) \<and> bounds a c (minimax_plain b d mx) r))"

text \<open>At most one side has a winning line.\<close>

definition no_both :: "board \<Rightarrow> bool" where
  "no_both b = (checkWin b (Str ''X'') = None \<or> checkWin b (Str ''O'') = None)"

text \<open>The score that \<^verbatim>\<open>getMinimaxMove\<close> gives to the move \<open>m\<close>.\<close>

definition move_score :: "board \<Rightarrow> nat \<Rightarrow> jsnum" where
  "move_score b m = minimax_plain (b[m := Str ''O'']) 0 False"

text \<open>
  A strategy for \<^verbatim>\<open>'O'\<close> as a tree: \<open>Reply m ts\<close> answers with the slot \<open>m\<close> and continues with
  the \<open>i\<close>-th tree of \<open>ts\<close> after \<^verbatim>\<open>'X'\<close> has taken the \<open>i\<close>-th slot then available, in ascending
  order. \<open>holds_reply t b\<close> checks that the strategy \<open>t\<close>, followed from the position \<open>b\<close>
  with \<^verbatim>\<open>'O'\<close> to move, never lets \<^verbatim>\<open>'X'\<close> win.
\<close>

datatype strategy = Reply nat "strategy list"

fun check_all :: "(board \<Rightarrow> bool) list \<Rightarrow> board \<Rightarrow> nat list \<Rightarrow> bool" where
  "check_all [] b [] = True"
| "check_all (f # fs) b (k # ks) = (if f (b[k := Str ''X'']) then check_all fs b ks else False)"
| "check_all _ b _ = False"

primrec holds_reply :: "strategy \<Rightarrow> board \<Rightarrow> bool" where
  "holds_reply (Reply m ts) b =
     (if checkWin b (Str ''X'') \<noteq> None then False
      else if checkWin b (Str ''O'') \<noteq> None \<or> checkDraw b then True
      else if cell b m \<noteq> Null \<or> 9 \<le> m then False
      else (let b' = b[m := Str ''O''] in
            if checkWin b' (Str ''O'') \<noteq> None \<or> checkDraw b' then True
            else check_all (map holds_reply ts) b' (getAvailableMoves b')))"

text \<open>The replies of \<^verbatim>\<open>'O'\<close> as second player, from the empty board.\<close>

definition second_player_replies :: "strategy list" where
  "second_player_replies =
    [Reply 4 [Reply 2 [Reply 6 [], Reply 6 [], Reply 3 [Reply 7 [Reply 0 []], Reply 5 [],
     Reply 5 []], Reply 6 [], Reply 6 []], Reply 1 [Reply 7 [], Reply 7 [], Reply 7 [],
     Reply 3 [Reply 8 [Reply 0 []], Reply 5 [], Reply 5 []], Reply 7 []], Reply 6 [Reply 2
     [], Reply 1 [Reply 7 [], Reply 5 [Reply 0 []], Reply 7 []], Reply 2 [], Reply 2 [],
     Reply 2 []], Reply 1 [Reply 7 [], Reply 7 [], Reply 7 [], Reply 6 [Reply 8 [Reply 0
     []], Reply 2 [], Reply 2 []], Reply 7 []], Reply 3 [Reply 5 [], Reply 5 [], Reply 1
     [Reply 7 [], Reply 8 [Reply 0 []], Reply 7 []], Reply 5 [], Reply 5 []], Reply 3
     [Reply 5 [], Reply 5 [], Reply 2 [Reply 6 [], Reply 8 [Reply 0 []], Reply 6 []],
     Reply 5 [], Reply 5 []], Reply 1 [Reply 7 [], Reply 7 [], Reply 7 [], Reply 7 [],
     Reply 6 [Reply 5 [Reply 0 []], Reply 2 [], Reply 2 []]]], Reply 4 [Reply 2 [Reply 6
     [], Reply 6 [], Reply 3 [Reply 7 [Reply 0 []], Reply 5 [], Reply 5 []], Reply 6 [],
     Reply 6 []], Reply 0 [Reply 8 [], Reply 8 [], Reply 8 [], Reply 8 [], Reply 5 [Reply 6
     [Reply 0 []], Reply 3 [], Reply 3 []]], Reply 0 [Reply 8 [], Reply 8 [], Reply 8 [],
     Reply 8 [], Reply 2 [Reply 6 [], Reply 7 [Reply 0 []], Reply 6 []]], Reply 0 [Reply 8
     [], Reply 8 [], Reply 8 [], Reply 8 [], Reply 2 [Reply 6 [], Reply 7 [Reply 0 []],
     Reply 6 []]], Reply 3 [Reply 5 [], Reply 5 [], Reply 8 [Reply 2 [Reply 0 []], Reply 0
     [], Reply 0 []], Reply 5 [], Reply 5 []], Reply 0 [Reply 8 [], Reply 8 [], Reply 8 [],
     Reply 8 [], Reply 6 [Reply 3 [], Reply 2 [], Reply 2 []]], Reply 3 [Reply 5 [],
     Reply 5 [], Reply 2 [Reply 6 [], Reply 7 [Reply 0 []], Reply 6 []], Reply 5 [],
     Reply 5 []]], Reply 4 [Reply 1 [Reply 7 [], Reply 7 [], Reply 7 [], Reply 3 [Reply 8
     [Reply 0 []], Reply 5 [], Reply 5 []], Reply 7 []], Reply 0 [Reply 8 [], Reply 8 [],
     Reply 8 [], Reply 8 [], Reply 5 [Reply 6 [Reply 0 []], Reply 3 [], Reply 3 []]],
     Reply 1 [Reply 7 [], Reply 7 [], Reply 7 [], Reply 8 [Reply 6 [Reply 0 []], Reply 0
     [], Reply 0 []], Reply 7 []], Reply 8 [Reply 1 [Reply 7 [], Reply 7 [], Reply 3
     [Reply 0 []]], Reply 0 [], Reply 0 [], Reply 0 [], Reply 0 []], Reply 1 [Reply 7 [],
     Reply 7 [], Reply 7 [], Reply 8 [Reply 3 [Reply 0 []], Reply 0 [], Reply 0 []],
     Reply 7 []], Reply 3 [Reply 5 [], Reply 5 [], Reply 8 [Reply 1 [Reply 0 []], Reply 0
     [], Reply 0 []], Reply 5 [], Reply 5 []], Reply 5 [Reply 3 [], Reply 3 [], Reply 1
     [Reply 7 [], Reply 7 [], Reply 6 [Reply 0 []]], Reply 3 [], Reply 3 []]], Reply 4
     [Reply 6 [Reply 2 [], Reply 1 [Reply 7 [], Reply 5 [Reply 0 []], Reply 7 []], Reply 2
     [], Reply 2 [], Reply 2 []], Reply 0 [Reply 8 [], Reply 8 [], Reply 8 [], Reply 8 [],
     Reply 2 [Reply 6 [], Reply 7 [Reply 0 []], Reply 6 []]], Reply 1 [Reply 7 [], Reply 7
     [], Reply 7 [], Reply 8 [Reply 6 [Reply 0 []], Reply 0 [], Reply 0 []], Reply 7 []],
     Reply 0 [Reply 8 [], Reply 8 [], Reply 8 [], Reply 8 [], Reply 2 [Reply 6 [], Reply 1
     [], Reply 1 []]], Reply 0 [Reply 8 [], Reply 8 [], Reply 8 [], Reply 8 [], Reply 7
     [Reply 2 [Reply 0 []], Reply 1 [], Reply 1 []]], Reply 0 [Reply 8 [], Reply 8 [],
     Reply 8 [], Reply 8 [], Reply 6 [Reply 2 [], Reply 5 [Reply 0 []], Reply 2 []]],
     Reply 1 [Reply 7 [], Reply 7 [], Reply 7 [], Reply 7 [], Reply 6 [Reply 2 [], Reply 5
     [Reply 0 []], Reply 2 []]]], Reply 0 [Reply 7 [Reply 6 [Reply 8 [], Reply 3 [],
     Reply 3 []], Reply 5 [Reply 6 [Reply 0 []], Reply 2 [Reply 0 []], Reply 2 [Reply 0
     []]], Reply 3 [Reply 6 [], Reply 2 [Reply 0 []], Reply 6 []], Reply 2 [Reply 5
     [Reply 0 []], Reply 3 [Reply 0 []], Reply 3 [Reply 0 []]], Reply 3 [Reply 6 [],
     Reply 6 [], Reply 2 [Reply 0 []]]], Reply 6 [Reply 3 [], Reply 5 [Reply 7 [Reply 0
     []], Reply 1 [Reply 0 []], Reply 1 [Reply 0 []]], Reply 3 [], Reply 3 [], Reply 3 []],
     Reply 5 [Reply 7 [Reply 6 [Reply 0 []], Reply 2 [Reply 0 []], Reply 2 [Reply 0 []]],
     Reply 6 [Reply 7 [Reply 0 []], Reply 1 [Reply 0 []], Reply 1 [Reply 0 []]], Reply 2
     [Reply 8 [], Reply 1 [], Reply 1 []], Reply 1 [Reply 6 [Reply 0 []], Reply 2 [],
     Reply 2 []], Reply 1 [Reply 6 [Reply 0 []], Reply 2 [], Reply 2 []]], Reply 3 [Reply 6
     [], Reply 6 [], Reply 2 [Reply 7 [Reply 0 []], Reply 1 [], Reply 1 []], Reply 6 [],
     Reply 6 []], Reply 2 [Reply 7 [Reply 5 [Reply 0 []], Reply 3 [Reply 0 []], Reply 3
     [Reply 0 []]], Reply 1 [], Reply 1 [], Reply 1 [], Reply 1 []], Reply 1 [Reply 6
     [Reply 5 [Reply 0 []], Reply 3 [], Reply 3 []], Reply 2 [], Reply 2 [], Reply 2 [],
     Reply 2 []], Reply 2 [Reply 7 [Reply 5 [Reply 0 []], Reply 3 [Reply 0 []], Reply 3
     [Reply 0 []]], Reply 1 [], Reply 1 [], Reply 1 [], Reply 1 []]], Reply 4 [Reply 1
     [Reply 7 [], Reply 7 [], Reply 7 [], Reply 6 [Reply 8 [Reply 0 []], Reply 2 [],
     Reply 2 []], Reply 7 []], Reply 0 [Reply 8 [], Reply 8 [], Reply 8 [], Reply 8 [],
     Reply 2 [Reply 6 [], Reply 7 [Reply 0 []], Reply 6 []]], Reply 8 [Reply 1 [Reply 7 [],
     Reply 7 [], Reply 3 [Reply 0 []]], Reply 0 [], Reply 0 [], Reply 0 [], Reply 0 []],
     Reply 0 [Reply 8 [], Reply 8 [], Reply 8 [], Reply 8 [], Reply 2 [Reply 6 [], Reply 1
     [], Reply 1 []]], Reply 1 [Reply 7 [], Reply 7 [], Reply 7 [], Reply 8 [Reply 3
     [Reply 0 []], Reply 0 [], Reply 0 []], Reply 7 []], Reply 2 [Reply 6 [], Reply 6 [],
     Reply 6 [], Reply 8 [Reply 3 [Reply 0 []], Reply 0 [], Reply 0 []], Reply 6 []],
     Reply 2 [Reply 6 [], Reply 6 [], Reply 6 [], Reply 7 [Reply 1 [], Reply 0 [Reply 0
     []], Reply 1 []], Reply 6 []]], Reply 4 [Reply 3 [Reply 5 [], Reply 5 [], Reply 1
     [Reply 7 [], Reply 8 [Reply 0 []], Reply 7 []], Reply 5 [], Reply 5 []], Reply 3
     [Reply 5 [], Reply 5 [], Reply 8 [Reply 2 [Reply 0 []], Reply 0 [], Reply 0 []],
     Reply 5 [], Reply 5 []], Reply 1 [Reply 7 [], Reply 7 [], Reply 7 [], Reply 8 [Reply 3
     [Reply 0 []], Reply 0 [], Reply 0 []], Reply 7 []], Reply 0 [Reply 8 [], Reply 8 [],
     Reply 8 [], Reply 8 [], Reply 7 [Reply 2 [Reply 0 []], Reply 1 [], Reply 1 []]],
     Reply 1 [Reply 7 [], Reply 7 [], Reply 7 [], Reply 8 [Reply 3 [Reply 0 []], Reply 0
     [], Reply 0 []], Reply 7 []], Reply 8 [Reply 3 [Reply 5 [], Reply 5 [], Reply 1
     [Reply 0 []]], Reply 0 [], Reply 0 [], Reply 0 [], Reply 0 []], Reply 7 [Reply 1 [],
     Reply 3 [Reply 5 [], Reply 5 [], Reply 2 [Reply 0 []]], Reply 1 [], Reply 1 [],
     Reply 1 []]], Reply 4 [Reply 3 [Reply 5 [], Reply 5 [], Reply 2 [Reply 6 [], Reply 8
     [Reply 0 []], Reply 6 []], Reply 5 [], Reply 5 []], Reply 0 [Reply 8 [], Reply 8 [],
     Reply 8 [], Reply 8 [], Reply 6 [Reply 3 [], Reply 2 [], Reply 2 []]], Reply 3
     [Reply 5 [], Reply 5 [], Reply 8 [Reply 1 [Reply 0 []], Reply 0 [], Reply 0 []],
     Reply 5 [], Reply 5 []], Reply 0 [Reply 8 [], Reply 8 [], Reply 8 [], Reply 8 [],
     Reply 6 [Reply 2 [], Reply 5 [Reply 0 []], Reply 2 []]], Reply 2 [Reply 6 [], Reply 6
     [], Reply 6 [], Reply 8 [Reply 3 [Reply 0 []], Reply 0 [], Reply 0 []], Reply 6 []],
     Reply 8 [Reply 3 [Reply 5 [], Reply 5 [], Reply 1 [Reply 0 []]], Reply 0 [], Reply 0
     [], Reply 0 [], Reply 0 []], Reply 6 [Reply 2 [], Reply 2 [], Reply 5 [Reply 3 [],
     Reply 3 [], Reply 0 [Reply 0 []]], Reply 2 [], Reply 2 []]], Reply 4 [Reply 1 [Reply 7
     [], Reply 7 [], Reply 7 [], Reply 7 [], Reply 6 [Reply 5 [Reply 0 []], Reply 2 [],
     Reply 2 []]], Reply 3 [Reply 5 [], Reply 5 [], Reply 2 [Reply 6 [], Reply 7 [Reply 0
     []], Reply 6 []], Reply 5 [], Reply 5 []], Reply 5 [Reply 3 [], Reply 3 [], Reply 1
     [Reply 7 [], Reply 7 [], Reply 6 [Reply 0 []]], Reply 3 [], Reply 3 []], Reply 1
     [Reply 7 [], Reply 7 [], Reply 7 [], Reply 7 [], Reply 6 [Reply 2 [], Reply 5 [Reply 0
     []], Reply 2 []]], Reply 2 [Reply 6 [], Reply 6 [], Reply 6 [], Reply 7 [Reply 1 [],
     Reply 0 [Reply 0 []], Reply 1 []], Reply 6 []], Reply 7 [Reply 1 [], Reply 3 [Reply 5
     [], Reply 5 [], Reply 2 [Reply 0 []]], Reply 1 [], Reply 1 [], Reply 1 []], Reply 6
     [Reply 2 [], Reply 2 [], Reply 5 [Reply 3 [], Reply 3 [], Reply 0 [Reply 0 []]],
     Reply 2 [], Reply 2 []]]]"

text \<open>The replies of the side that has opened in the centre, written for \<^verbatim>\<open>'O'\<close>.\<close>

definition centre_opening_replies :: "strategy list" where
  "centre_opening_replies =
    [Reply 1 [Reply 7 [], Reply 7 [], Reply 7 [], Reply 7 [], Reply 3 [Reply 5 [], Reply 2
     [Reply 8 [], Reply 6 []], Reply 5 [], Reply 5 []], Reply 7 []], Reply 0 [Reply 8 [],
     Reply 8 [], Reply 8 [], Reply 8 [], Reply 8 [], Reply 3 [Reply 5 [], Reply 6 [],
     Reply 5 [], Reply 5 []]], Reply 0 [Reply 8 [], Reply 8 [], Reply 8 [], Reply 8 [],
     Reply 8 [], Reply 5 [Reply 3 [], Reply 1 [Reply 7 [], Reply 6 []], Reply 3 [], Reply 3
     []]], Reply 0 [Reply 8 [], Reply 8 [], Reply 8 [], Reply 8 [], Reply 8 [], Reply 1
     [Reply 7 [], Reply 2 [], Reply 2 [], Reply 2 []]], Reply 0 [Reply 8 [], Reply 8 [],
     Reply 8 [], Reply 8 [], Reply 8 [], Reply 2 [Reply 6 [], Reply 1 [], Reply 1 [],
     Reply 1 []]], Reply 0 [Reply 8 [], Reply 8 [], Reply 8 [], Reply 8 [], Reply 8 [],
     Reply 7 [Reply 2 [Reply 5 [], Reply 3 []], Reply 1 [], Reply 1 [], Reply 1 []]],
     Reply 0 [Reply 8 [], Reply 8 [], Reply 8 [], Reply 8 [], Reply 8 [], Reply 6 [Reply 2
     [], Reply 3 [], Reply 2 [], Reply 2 []]], Reply 1 [Reply 7 [], Reply 7 [], Reply 7 [],
     Reply 7 [], Reply 7 [], Reply 6 [Reply 2 [], Reply 5 [Reply 3 [], Reply 0 []], Reply 2
     [], Reply 2 []]]]"

section \<open>Example states\<close>

definition empty_board :: board where
  "empty_board = replicate 9 Null"

definition B1 :: Board where
  "B1 = \<lparr>cells = [Str ''X'', Null, Null, Null, Str ''O'', Null, Null, Null, Null],
          currentPlayer = ''X'', status = ''ONGOING''\<rparr>"

definition B2 :: board where
  "B2 = [Str ''X'', Str ''O'', Str ''X'', Str ''X'', Str ''O'', Str ''O'', Null, Str ''X'', Null]"

definition B3 :: board where
  "B3 = [Str ''X'', Str ''O'', Str ''X'', Str ''X'', Str ''O'', Str ''O'', Str ''O'', Str ''X'', Str ''X'']"

definition B4 :: board where
  "B4 = [Str ''X'', Str ''X'', Str ''X'', Str ''O'', Str ''O'', Null, Null, Null, Null]"

definition B5 :: board where
  "B5 = [Str ''X'', Str ''X'', Null, Str ''O'', Str ''O'', Str ''O'', Str ''X'', Null, Null]"

definition lost_position :: board where
  "lost_position = [Str ''X'', Str ''O'', Null, Str ''X'', Str ''X'', Null, Null, Null, Str ''O'']"

text \<open>
  A game is started, the player moves, and the game is reset while the computer move waits
  for its timer; then the timer fires.
\<close>

definition reset_scenario :: "event list" where
  "reset_scenario = [InitializeGame (Str ''EASY''), PlayerMove 0 0, ResetGame, TimerFires 0]"

text \<open>The same, with a new game started before the timer fires.\<close>

definition restart_scenario :: "event list" where
  "restart_scenario =
     [InitializeGame (Str ''EASY''), PlayerMove 0 0, ResetGame, InitializeGame (Str ''EASY''),
      TimerFires 0]"

section \<open>Coordinate conversion\<close>

lemma js_rem_nonneg: "0 \<le> i \<Longrightarrow> js_rem i 3 = i mod 3"
  by (simp add: js_rem_def sgn_if)

text \<open>
  C7. Index and coordinates convert into each other without loss on the nine valid
  positions: \<open>toIndex (toCoords i) = i\<close> for \<open>i\<close> from 0 to 8, \<open>toCoords (toIndex row col) =
  (row, col)\<close> for \<open>row\<close> and \<open>col\<close> from 0 to 2, the index being \<open>row * 3 + col\<close> and lying
  between 0 and 8.
\<close>

theorem coords_roundtrip:
  "(0 \<le> i \<and> i \<le> 8 \<longrightarrow> toIndex (fst (toCoords i)) (snd (toCoords i)) = i \<and>
       isValid (fst (toCoords i)) (snd (toCoords i))) \<and>
   (isValid row col \<longrightarrow> toCoords (toIndex row col) = (row, col) \<and>
       toIndex row col = row * 3 + col \<and> 0 \<le> toIndex row col \<and> toIndex row col \<le> 8)"
proof (intro conjI impI)
  assume i: "0 \<le> i \<and> i \<le> 8"
  then show "toIndex (fst (toCoords i)) (snd (toCoords i)) = i"
    by (simp add: toIndex_def toCoords_def js_rem_nonneg)
  from i show "isValid (fst (toCoords i)) (snd (toCoords i))"
    by (simp add: isValid_def toCoords_def js_rem_nonneg) presburger
next
  assume v: "isValid row col"
  then have rc: "0 \<le> row" "row \<le> 2" "0 \<le> col" "col \<le> 2"
    by (simp_all add: isValid_def)
  then have nn: "0 \<le> row * 3 + col" by simp
  have "(row * 3 + col) div 3 = row" "(row * 3 + col) mod 3 = col"
    using rc by simp_all
  then show "toCoords (toIndex row col) = (row, col)"
    using nn by (simp add: toCoords_def toIndex_def js_rem_nonneg)
  show "toIndex row col = row * 3 + col" by (simp add: toIndex_def)
  show "0 \<le> toIndex row col" using nn by (simp add: toIndex_def)
  show "toIndex row col \<le> 8" using rc by (simp add: toIndex_def)
qed

theorem coords_roundtrip_witness:
  "toIndex (fst (toCoords 7)) (snd (toCoords 7)) = 7 \<and> toCoords (toIndex 2 1) = (2, 1) \<and>
   toIndex 2 1 = 7"
proof -
  have "(0::int) \<le> 7 \<and> (7::int) \<le> 8" by simp
  moreover have "isValid 2 1" by (simp add: isValid_def)
  ultimately have "toIndex (fst (toCoords 7)) (snd (toCoords 7)) = 7 \<and>
      toCoords (toIndex 2 1) = (2, 1) \<and> toIndex 2 1 = 2 * 3 + 1"
    using coords_roundtrip [of 7 2 1] by blast
  then show ?thesis by (simp add: toIndex_def)
qed

section \<open>Placement\<close>

lemma toCoords_valid_iff: "isValid (fst (toCoords index)) (snd (toCoords index)) \<longleftrightarrow> 0 \<le> index \<and> index \<le> 8"
proof (cases "0 \<le> index")
  case True
  then show ?thesis
    by (simp add: isValid_def toCoords_def js_rem_nonneg) presburger
next
  case False
  then have "index div 3 < 0" by simp
  then show ?thesis using False by (simp add: isValid_def toCoords_def)
qed

lemma toCoords_toIndex: "0 \<le> index \<Longrightarrow> toIndex (fst (toCoords index)) (snd (toCoords index)) = index"
  by (simp add: toIndex_def toCoords_def js_rem_nonneg)

lemma placeMove_eq:
  "placeMove bd row col player =
     (if \<not> isValid row col \<or> rejected bd (toIndex row col) player then (False, bd)
      else (True, bd\<lparr>cells := (cells bd)[nat (toIndex row col) := player]\<rparr>))"
  by (auto simp: placeMove_def rejected_def isEmpty_def getCellByIndex_def isValid_def toIndex_def)

lemma placeMoveByIndex_eq:
  "placeMoveByIndex bd index player =
     (if rejected bd index player then (False, bd)
      else (True, bd\<lparr>cells := (cells bd)[nat index := player]\<rparr>))"
proof (cases "0 \<le> index \<and> index \<le> 8")
  case True
  then show ?thesis
    using toCoords_valid_iff[of index] toCoords_toIndex[of index]
    by (simp add: placeMoveByIndex_def Let_def placeMove_eq)
next
  case False
  then show ?thesis
    using toCoords_valid_iff[of index] 
    by (auto simp add: placeMoveByIndex_def Let_def placeMove_eq rejected_def)
qed

lemma getCellByIndex_update:
  "\<not> rejected bd index player \<Longrightarrow>
   getCellByIndex (bd\<lparr>cells := (cells bd)[nat index := player]\<rparr>) j =
     (if j = index then player else getCellByIndex bd j)"
  by (auto simp: rejected_def getCellByIndex_def cell_at_def nth_list_update split: if_splits)

text \<open>
  C4. For every board state, integer index or coordinate pair and side token, the placement
  returns false and leaves the board object (every cell, the current player, the status)
  unchanged when the index is out of range, the slot is occupied or the token is not
  \<^verbatim>\<open>'X'\<close> or \<^verbatim>\<open>'O'\<close>; otherwise it returns true and the only change is that the target slot
  holds the marker.
\<close>

theorem placeMove_contract:
  "(let (ok, bd') = placeMoveByIndex bd index player in
      ok = (\<not> rejected bd index player) \<and>
      (rejected bd index player \<longrightarrow> bd' = bd) \<and>
      (\<not> rejected bd index player \<longrightarrow>
         currentPlayer bd' = currentPlayer bd \<and> status bd' = status bd \<and>
         length (cells bd') = length (cells bd) \<and>
         (\<forall>j. getCellByIndex bd' j = (if j = index then player else getCellByIndex bd j)))) \<and>
   (let (ok, bd') = placeMove bd row col player;
        rej = (\<not> isValid row col \<or> rejected bd (toIndex row col) player) in
      ok = (\<not> rej) \<and>
      (rej \<longrightarrow> bd' = bd) \<and>
      (\<not> rej \<longrightarrow>
         currentPlayer bd' = currentPlayer bd \<and> status bd' = status bd \<and>
         length (cells bd') = length (cells bd) \<and>
         (\<forall>j. getCellByIndex bd' j = (if j = toIndex row col then player else getCellByIndex bd j))))"
  by (auto simp add: placeMove_eq placeMoveByIndex_eq getCellByIndex_update Let_def)

theorem placeMove_contract_witness:
  "placeMoveByIndex B1 5 (Str ''X'') =
     (True, B1\<lparr>cells := [Str ''X'', Null, Null, Null, Str ''O'', Str ''X'', Null, Null, Null]\<rparr>) \<and>
   placeMoveByIndex B1 4 (Str ''X'') = (False, B1) \<and>
   placeMoveByIndex B1 9 (Str ''X'') = (False, B1) \<and>
   placeMove B1 1 2 (Str ''Z'') = (False, B1) \<and>
   placeMove B1 0 3 (Str ''X'') = (False, B1)"
proof -
  have r1: "\<not> rejected B1 5 (Str ''X'')" "rejected B1 4 (Str ''X'')" "rejected B1 9 (Str ''X'')"
    by (simp_all add: rejected_def getCellByIndex_def cell_at_def B1_def)
  have r2: "rejected B1 (toIndex 1 2) (Str ''Z'')" "\<not> isValid 0 3"
    by (simp_all add: rejected_def isValid_def)
  have a: "fst (placeMoveByIndex B1 5 (Str ''X''))"
    "placeMoveByIndex B1 4 (Str ''X'') = (False, B1)"
    "placeMoveByIndex B1 9 (Str ''X'') = (False, B1)"
    using placeMove_contract [of B1 5 "Str ''X''" 0 0]
      placeMove_contract [of B1 4 "Str ''X''" 0 0]
      placeMove_contract [of B1 9 "Str ''X''" 0 0] r1
    by (auto simp: Let_def split: prod.splits)
  have b: "placeMove B1 1 2 (Str ''Z'') = (False, B1)" "placeMove B1 0 3 (Str ''X'') = (False, B1)"
    using placeMove_contract [of B1 0 "Str ''Z''" 1 2]
      placeMove_contract [of B1 0 "Str ''X''" 0 3] r2
    by (auto simp: Let_def split: prod.splits)
  have c: "placeMoveByIndex B1 5 (Str ''X'') =
     (True, B1\<lparr>cells := [Str ''X'', Null, Null, Null, Str ''O'', Str ''X'', Null, Null, Null]\<rparr>)"
    by (simp add: placeMoveByIndex_def placeMove_def toCoords_def js_rem_def isValid_def
        isEmpty_def toIndex_def cell_at_def B1_def Let_def)
  from a b c show ?thesis by simp
qed

section \<open>Classification of a board\<close>

lemma three: "{0..<3::nat} = {0, 1, 2}"
  by auto

lemma has_line_unfold:
  "has_line b p \<longleftrightarrow>
     holds_line b p 0 1 2 \<or> holds_line b p 3 4 5 \<or> holds_line b p 6 7 8 \<or>
     holds_line b p 0 3 6 \<or> holds_line b p 1 4 7 \<or> holds_line b p 2 5 8 \<or>
     holds_line b p 0 4 8 \<or> holds_line b p 2 4 6"
  unfolding has_line_def by (simp add: three numeral_2_eq_2)

lemma checkWin_unfold:
  "checkWin b p \<noteq> None \<longleftrightarrow>
     holds_line b p 0 1 2 \<or> holds_line b p 3 4 5 \<or> holds_line b p 6 7 8 \<or>
     holds_line b p 0 3 6 \<or> holds_line b p 1 4 7 \<or> holds_line b p 2 5 8 \<or>
     holds_line b p 0 4 8 \<or> holds_line b p 2 4 6"
proof -
  have "checkWin b p \<noteq> None \<longleftrightarrow> (\<exists>(x, y, z) \<in> set WIN_COMBINATIONS. holds_line b p x y z)"
    unfolding checkWin_def holds_line_def 
    by (simp only: find_None_iff) auto
  then show ?thesis unfolding WIN_COMBINATIONS_def by simp
qed

lemma checkWin_iff: "checkWin b p \<noteq> None \<longleftrightarrow> has_line b p"
  by (simp only: checkWin_unfold has_line_unfold)

lemma list_all_occupied: "length b = 9 \<Longrightarrow> list_all (\<lambda>c. c \<noteq> Null) b \<longleftrightarrow> all_occupied b"
  by (auto simp: all_occupied_def cell_def list_all_length)

lemma checkDraw_iff:
  "length b = 9 \<Longrightarrow>
   checkDraw b \<longleftrightarrow> \<not> has_line b (Str ''X'') \<and> \<not> has_line b (Str ''O'') \<and> all_occupied b"
  using checkWin_iff [of b "Str ''X''"] checkWin_iff [of b "Str ''O''"]
  by (simp add: checkDraw_def list_all_occupied del: not_None_eq)

text \<open>
  C6. On a board of nine slots \<^verbatim>\<open>getGameResult\<close> answers in a fixed priority: a win of
  \<^verbatim>\<open>'X'\<close>, then a win of \<^verbatim>\<open>'O'\<close>, then a draw, and in-progress otherwise; \<^verbatim>\<open>checkDraw\<close> is
  true exactly when neither side has a winning line and every slot is occupied.
\<close>

theorem classification:
  "length b = 9 \<Longrightarrow>
   getGameResult b =
     (if has_line b (Str ''X'') then ''PLAYER_WON''
      else if has_line b (Str ''O'') then ''AI_WON''
      else if all_occupied b then ''DRAW''
      else ''ONGOING'') \<and>
   (checkDraw b \<longleftrightarrow> \<not> has_line b (Str ''X'') \<and> \<not> has_line b (Str ''O'') \<and> all_occupied b)"
  using checkWin_iff [of b "Str ''X''"] checkWin_iff [of b "Str ''O''"]
  by (simp add: getGameResult_def checkDraw_iff del: not_None_eq)

theorem classification_witness:
  "getGameResult B3 = ''DRAW'' \<and> checkDraw B3 \<and> getGameResult B4 = ''PLAYER_WON'' \<and>
   \<not> checkDraw B4 \<and> getGameResult B5 = ''AI_WON'' \<and> getGameResult B2 = ''ONGOING''"
proof -
  have l: "length B3 = 9" "length B4 = 9" "length B5 = 9" "length B2 = 9"
    by (simp_all add: B3_def B4_def B5_def B2_def)
  have h3: "\<not> has_line B3 (Str ''X'')" "\<not> has_line B3 (Str ''O'')" "all_occupied B3"
    by code_simp+
  have h4: "has_line B4 (Str ''X'')" by code_simp
  have h5: "\<not> has_line B5 (Str ''X'')" "has_line B5 (Str ''O'')" by code_simp+
  have h2: "\<not> has_line B2 (Str ''X'')" "\<not> has_line B2 (Str ''O'')" "\<not> all_occupied B2"
    by code_simp+
  show ?thesis
    using classification [OF l(1)] classification [OF l(2)] classification [OF l(3)]
      classification [OF l(4)] h3 h4 h5 h2
    by simp
qed

section \<open>The search leaves its array as it found it\<close>

lemma cell_Null_D: "cell b m = Null \<Longrightarrow> m < length b \<and> b ! m = Null"
  by (simp add: cell_def split: if_splits)

lemma available_D: "m \<in> set (getAvailableMoves b) \<Longrightarrow> m < 9 \<and> m < length b \<and> b ! m = Null"
  by (auto simp: getAvailableMoves_def dest: cell_Null_D)

lemma cell_update: "m < length b \<Longrightarrow> cell (b[m := v]) i = (if i = m then v else cell b i)"
  by (simp add: cell_def)

lemma available_update:
  assumes "m < length b" "v \<noteq> Null"
  shows "getAvailableMoves (b[m := v]) = filter (\<lambda>i. i \<noteq> m) (getAvailableMoves b)"
  using assms by (auto simp: getAvailableMoves_def cell_update intro: filter_cong)

lemma available_decreases:
  assumes "m \<in> set (getAvailableMoves b)" "v \<noteq> Null"
  shows "length (getAvailableMoves (b[m := v])) < length (getAvailableMoves b)"
proof -
  have "m < length b" using assms(1) available_D by blast
  then have "getAvailableMoves (b[m := v]) = filter (\<lambda>i. i \<noteq> m) (getAvailableMoves b)"
    using assms(2) by (rule available_update)
  then show ?thesis using assms(1) by (simp add: length_filter_less)
qed

lemma undo_move: "m < length b \<Longrightarrow> b ! m = Null \<Longrightarrow> (b[m := v])[m := Null] = b"
  by (simp add: list_update_same_conv)

lemma max_loop_restores:
  assumes "restores call n" "length (getAvailableMoves b) \<le> n" "set ms \<subseteq> set (getAvailableMoves b)"
  shows "\<exists>s. max_loop call b ms d a c best = Some (s, b)"
  using assms(3)
proof (induction ms arbitrary: a best)
  case Nil
  then show ?case by simp
next
  case (Cons m ms)
  then have m: "m \<in> set (getAvailableMoves b)" by simp
  then have lt: "length (getAvailableMoves (b[m := Str ''O''])) < n"
    using available_decreases [of m b "Str ''O''"] assms(2) by simp
  then obtain s where s: "call (b[m := Str ''O'']) (d + 1) False a c = Some (s, b[m := Str ''O''])"
    using assms(1) unfolding restores_def by blast
  have undo: "(b[m := Str ''O''])[m := Null] = b"
    using m available_D undo_move by blast
  from Cons have "\<exists>s'. max_loop call b ms d (max a s) c (max best s) = Some (s', b)" by simp
  then show ?case using s undo by (simp add: Let_def)
qed

lemma min_loop_restores:
  assumes "restores call n" "length (getAvailableMoves b) \<le> n" "set ms \<subseteq> set (getAvailableMoves b)"
  shows "\<exists>s. min_loop call b ms d a c best = Some (s, b)"
  using assms(3)
proof (induction ms arbitrary: c best)
  case Nil
  then show ?case by simp
next
  case (Cons m ms)
  then have m: "m \<in> set (getAvailableMoves b)" by simp
  then have lt: "length (getAvailableMoves (b[m := Str ''X''])) < n"
    using available_decreases [of m b "Str ''X''"] assms(2) by simp
  then obtain s where s: "call (b[m := Str ''X'']) (d + 1) True a c = Some (s, b[m := Str ''X''])"
    using assms(1) unfolding restores_def by blast
  have undo: "(b[m := Str ''X''])[m := Null] = b"
    using m available_D undo_move by blast
  from Cons have "\<exists>s'. min_loop call b ms d a (min c s) (min best s) = Some (s', b)" by simp
  then show ?case using s undo by (simp add: Let_def)
qed

lemma minimax_restores: "restores (minimax n) n"
proof (induction n)
  case 0
  then show ?case by (simp add: restores_def)
next
  case (Suc n)
  show ?case unfolding restores_def
  proof (intro allI impI)
    fix b d mx a c
    assume "length (getAvailableMoves b) < Suc n"
    then have le: "length (getAvailableMoves b) \<le> n" by simp
    show "\<exists>s. minimax (Suc n) b d mx a c = Some (s, b)"
      using max_loop_restores [OF Suc le subset_refl] min_loop_restores [OF Suc le subset_refl]
      by simp
  qed
qed

lemma minimax_returns:
  "length (getAvailableMoves b) < n \<Longrightarrow> \<exists>s. minimax n b d mx a c = Some (s, b)"
  using minimax_restores [of n] unfolding restores_def by blast

lemma available_le_9: "length (getAvailableMoves b) \<le> 9"
  unfolding getAvailableMoves_def using length_filter_le [of _ "[0..<9]"] by (metis diff_zero length_upt)

text \<open>
  C10. \<^verbatim>\<open>minimax\<close> undoes each of its trial placements: for every array and every
  argument, a call with enough fuel returns, and the array after the call equals the array
  before it.
\<close>

theorem minimax_restores_board:
  "length (getAvailableMoves b) < n \<Longrightarrow>
   \<exists>score. minimax n b depth isMaximizing alpha beta = Some (score, b)"
  by (rule minimax_returns)

theorem minimax_restores_board_witness:
  "length (getAvailableMoves B2) < 3 \<and>
   (\<exists>score. minimax 3 B2 0 True NegInf PosInf = Some (score, B2))"
proof -
  have h: "length (getAvailableMoves B2) < 3" by code_simp
  from minimax_restores_board [OF h] h show ?thesis by blast
qed

section \<open>Scores of terminal positions\<close>

text \<open>
  C5. For every board of nine slots and every depth, \<^verbatim>\<open>minimax\<close> returns 10 minus the depth
  when \<^verbatim>\<open>'O'\<close>, the maximizing side, has a winning line; otherwise the depth minus 10 when
  \<^verbatim>\<open>'X'\<close> has one; otherwise 0 when the board is full.
\<close>

theorem minimax_terminal_scores:
  "length b = 9 \<Longrightarrow> 0 < n \<Longrightarrow>
   (has_line b (Str ''O'') \<longrightarrow>
      minimax n b depth isMaximizing alpha beta = Some (Fin (10 - depth), b)) \<and>
   (\<not> has_line b (Str ''O'') \<and> has_line b (Str ''X'') \<longrightarrow>
      minimax n b depth isMaximizing alpha beta = Some (Fin (depth - 10), b)) \<and>
   (\<not> has_line b (Str ''O'') \<and> \<not> has_line b (Str ''X'') \<and> all_occupied b \<longrightarrow>
      minimax n b depth isMaximizing alpha beta = Some (Fin 0, b))"
proof -
  assume len: "length b = 9" and "0 < n"
  then obtain k where n: "n = Suc k" by (cases n) auto
  show ?thesis
    using checkWin_iff [of b "Str ''X''"] checkWin_iff [of b "Str ''O''"] checkDraw_iff [OF len]
    unfolding n by (simp del: not_None_eq)
qed

theorem minimax_terminal_scores_witness:
  "minimax 1 B5 2 True NegInf PosInf = Some (Fin 8, B5) \<and>
   minimax 1 B4 3 False (Fin 0) PosInf = Some (Fin (- 7), B4) \<and>
   minimax 1 B3 4 True NegInf PosInf = Some (Fin 0, B3)"
proof -
  have l: "length B3 = 9" "length B4 = 9" "length B5 = 9"
    by (simp_all add: B3_def B4_def B5_def)
  have h3: "\<not> has_line B3 (Str ''X'')" "\<not> has_line B3 (Str ''O'')" "all_occupied B3"
    by code_simp+
  have h4: "has_line B4 (Str ''X'')" "\<not> has_line B4 (Str ''O'')" by code_simp+
  have h5: "has_line B5 (Str ''O'')" by code_simp
  have n: "(0::nat) < 1" by simp
  show ?thesis
    using minimax_terminal_scores [OF l(3) n, of 2 True NegInf PosInf]
      minimax_terminal_scores [OF l(2) n, of 3 False "Fin 0" PosInf]
      minimax_terminal_scores [OF l(1) n, of 4 True NegInf PosInf] h3 h4 h5
    by simp
qed

section \<open>Dispatch on the difficulty\<close>

lemma getMinimaxMove_loop_returns:
  assumes "length (getAvailableMoves b) \<le> n" "set ms \<subseteq> set (getAvailableMoves b)"
  shows "\<exists>res. getMinimaxMove_loop n b ms bestMove bestScore = Some res"
  using assms(2)
proof (induction ms arbitrary: bestMove bestScore)
  case Nil
  then show ?case by simp
next
  case (Cons m ms)
  then have m: "m \<in> set (getAvailableMoves b)" by simp
  then have "length (getAvailableMoves (b[m := Str ''O''])) < n"
    using available_decreases [of m b "Str ''O''"] assms(1) by simp
  then obtain s where s: "minimax n (b[m := Str ''O'']) 0 False NegInf PosInf = Some (s, b[m := Str ''O''])"
    using minimax_returns by blast
  have undo: "(b[m := Str ''O''])[m := Null] = b"
    using m available_D undo_move by blast
  from Cons have "\<exists>res. getMinimaxMove_loop n b ms bm bs = Some res" for bm bs by simp
  then show ?case using s undo by (simp add: Let_def)
qed

lemma getMinimaxMove_returns:
  "length (getAvailableMoves b) \<le> n \<Longrightarrow> \<exists>res. getMinimaxMove n b = Some res"
  using getMinimaxMove_loop_returns [of b n "getAvailableMoves b"]
  by (simp add: getMinimaxMove_def Let_def)

text \<open>
  C8. For every board and every difficulty token \<^verbatim>\<open>getMove\<close> takes the random strategy
  for \<^verbatim>\<open>'EASY'\<close> and the minimax strategy for every other token (\<^verbatim>\<open>'HARD'\<close>, an unknown
  string, an absent value), and it returns a result in each case.
\<close>

theorem getMove_dispatch:
  "length (getAvailableMoves b) \<le> n \<Longrightarrow>
   (difficulty = Str ''EASY'' \<longrightarrow> getMove n b difficulty r = Some (getRandomMove b r)) \<and>
   (difficulty \<noteq> Str ''EASY'' \<longrightarrow> getMove n b difficulty r = getMinimaxMove n b) \<and>
   (\<exists>res. getMove n b difficulty r = Some res)"
  using getMinimaxMove_returns [of b n] by (simp add: getMove_def)

theorem getMove_dispatch_witness:
  "getMove 2 B2 (Str ''EASY'') (1 / 2) = Some (Some 8) \<and>
   getMove 2 B2 (Str ''HARD'') 0 = getMinimaxMove 2 B2 \<and>
   getMove 2 B2 (Str ''UNKNOWN'') 0 = getMinimaxMove 2 B2 \<and>
   getMove 2 B2 Undefined 0 = getMinimaxMove 2 B2 \<and>
   getMinimaxMove 2 B2 = Some (Some 6)"
proof -
  have h: "length (getAvailableMoves B2) \<le> 2" by code_simp
  have a: "getAvailableMoves B2 = [6, 8]" by code_simp
  have r: "getRandomMove B2 (1 / 2) = Some 8"
    by (simp add: getRandomMove_def a)
  have m: "getMinimaxMove 2 B2 = Some (Some 6)" by code_simp
  show ?thesis
    using getMove_dispatch [OF h, of "Str ''EASY''" "1 / 2"]
      getMove_dispatch [OF h, of "Str ''HARD''" 0]
      getMove_dispatch [OF h, of "Str ''UNKNOWN''" 0]
      getMove_dispatch [OF h, of Undefined 0] r m
    by simp
qed

section \<open>Pruning does not change the score\<close>

lemma fold_max_max: "fold max ys (max u z) = max u (fold max ys (z::jsnum))"
proof (induction ys arbitrary: z)
  case Nil
  then show ?case by simp
next
  case (Cons y ys)
  have "max y (max u z) = max u (max y z)" by (rule max.left_commute)
  then show ?case using Cons [of "max y z"] by simp
qed

lemma fold_min_min: "fold min ys (min u z) = min u (fold min ys (z::jsnum))"
proof (induction ys arbitrary: z)
  case Nil
  then show ?case by simp
next
  case (Cons y ys)
  have "min y (min u z) = min u (min y z)" by (rule min.left_commute)
  then show ?case using Cons [of "min y z"] by simp
qed

lemma fold_max_ge: "z \<le> fold max ys (z::jsnum)"
  by (induction ys arbitrary: z) (simp_all add: fold_max_max le_max_iff_disj)

lemma fold_min_le: "fold min ys (z::jsnum) \<le> z"
  by (induction ys arbitrary: z) (simp_all add: fold_min_min min_le_iff_disj)

lemma max_step_cut:
  fixes a c s fm M best :: jsnum
  assumes "a < c" "best \<le> a" "bounds a c fm s" "c \<le> max a s"
  shows "bounds a c (max fm M) (max best s)"
  using assms unfolding bounds_def by (auto simp: max_def split: if_splits)

lemma max_step_go:
  fixes a c s fm M best r :: jsnum
  assumes "a < c" "best \<le> a" "best \<le> M" "bounds a c fm s" "\<not> c \<le> max a s"
    "bounds (max a s) c (max s M) r"
  shows "bounds a c (max fm M) r"
  using assms unfolding bounds_def by (auto simp: max_def split: if_splits)

lemma min_step_cut:
  fixes a c s fm M best :: jsnum
  assumes "a < c" "c \<le> best" "bounds a c fm s" "min c s \<le> a"
  shows "bounds a c (min fm M) (min best s)"
  using assms unfolding bounds_def by (auto simp: min_def split: if_splits)

lemma min_step_go:
  fixes a c s fm M best r :: jsnum
  assumes "a < c" "c \<le> best" "M \<le> best" "bounds a c fm s" "\<not> min c s \<le> a"
    "bounds a (min c s) (min s M) r"
  shows "bounds a c (min fm M) r"
  using assms unfolding bounds_def by (auto simp: min_def split: if_splits)

lemma max_loop_sound:
  assumes call: "sound_call call n" and n: "length (getAvailableMoves b) \<le> n"
    and ms: "set ms \<subseteq> set (getAvailableMoves b)" and w: "a < c" "best \<le> a"
  shows "\<exists>r. max_loop call b ms d a c best = Some (r, b) \<and>
           bounds a c
             (fold max (map (\<lambda>move. minimax_plain (b[move := Str ''O'']) (d + 1) False) ms) best) r"
  using ms w
proof (induction ms arbitrary: a best)
  case Nil
  then show ?case by (simp add: bounds_def)
next
  case (Cons m ms)
  let ?f = "\<lambda>move. minimax_plain (b[move := Str ''O'']) (d + 1) False"
  let ?M = "fold max (map ?f ms) best"
  from Cons.prems have m: "m \<in> set (getAvailableMoves b)" by simp
  then have "length (getAvailableMoves (b[m := Str ''O''])) < n"
    using available_decreases [of m b "Str ''O''"] n by simp
  then obtain s where s: "call (b[m := Str ''O'']) (d + 1) False a c = Some (s, b[m := Str ''O''])"
    and bs: "bounds a c (?f m) s"
    using call \<open>a < c\<close> unfolding sound_call_def by blast
  have undo: "(b[m := Str ''O''])[m := Null] = b"
    using m available_D undo_move by blast
  have V: "fold max (map ?f (m # ms)) best = max (?f m) ?M"
    by (simp add: fold_max_max)
  show ?case
  proof (cases "c \<le> max a s")
    case True
    then have "max_loop call b (m # ms) d a c best = Some (max best s, b)"
      using s undo by (simp add: Let_def)
    moreover have "bounds a c (max (?f m) ?M) (max best s)"
      using max_step_cut [OF \<open>a < c\<close> \<open>best \<le> a\<close> bs True] .
    ultimately show ?thesis using V by simp
  next
    case False
    then have lt: "max a s < c" by (simp only: linorder_not_le)
    have le: "max best s \<le> max a s" using \<open>best \<le> a\<close> by (intro max.mono order_refl)
    from Cons.IH [OF _ lt le] Cons.prems(1)
    obtain r where r: "max_loop call b ms d (max a s) c (max best s) = Some (r, b)"
      and br: "bounds (max a s) c (fold max (map ?f ms) (max best s)) r"
      by auto
    have "fold max (map ?f ms) (max s best) = max s ?M"
      by (rule fold_max_max)
    then have "fold max (map ?f ms) (max best s) = max s ?M"
      by (simp only: max.commute [of best s])
    with br have br': "bounds (max a s) c (max s ?M) r" by simp
    have "max_loop call b (m # ms) d a c best = Some (r, b)"
      using s undo False r by (simp add: Let_def)
    moreover have "bounds a c (max (?f m) ?M) r"
      using max_step_go [OF \<open>a < c\<close> \<open>best \<le> a\<close> fold_max_ge bs False br'] .
    ultimately show ?thesis using V by simp
  qed
qed

lemma min_loop_sound:
  assumes call: "sound_call call n" and n: "length (getAvailableMoves b) \<le> n"
    and ms: "set ms \<subseteq> set (getAvailableMoves b)" and w: "a < c" "c \<le> best"
  shows "\<exists>r. min_loop call b ms d a c best = Some (r, b) \<and>
           bounds a c
             (fold min (map (\<lambda>move. minimax_plain (b[move := Str ''X'']) (d + 1) True) ms) best) r"
  using ms w
proof (induction ms arbitrary: c best)
  case Nil
  then show ?case by (simp add: bounds_def)
next
  case (Cons m ms)
  let ?f = "\<lambda>move. minimax_plain (b[move := Str ''X'']) (d + 1) True"
  let ?M = "fold min (map ?f ms) best"
  from Cons.prems have m: "m \<in> set (getAvailableMoves b)" by simp
  then have "length (getAvailableMoves (b[m := Str ''X''])) < n"
    using available_decreases [of m b "Str ''X''"] n by simp
  then obtain s where s: "call (b[m := Str ''X'']) (d + 1) True a c = Some (s, b[m := Str ''X''])"
    and bs: "bounds a c (?f m) s"
    using call \<open>a < c\<close> unfolding sound_call_def by blast
  have undo: "(b[m := Str ''X''])[m := Null] = b"
    using m available_D undo_move by blast
  have V: "fold min (map ?f (m # ms)) best = min (?f m) ?M"
    by (simp add: fold_min_min)
  show ?case
  proof (cases "min c s \<le> a")
    case True
    then have "min_loop call b (m # ms) d a c best = Some (min best s, b)"
      using s undo by (simp add: Let_def)
    moreover have "bounds a c (min (?f m) ?M) (min best s)"
      using min_step_cut [OF \<open>a < c\<close> \<open>c \<le> best\<close> bs True] .
    ultimately show ?thesis using V by simp
  next
    case False
    then have lt: "a < min c s" by (simp only: linorder_not_le)
    have le: "min c s \<le> min best s" using \<open>c \<le> best\<close> by (intro min.mono order_refl)
    from Cons.IH [OF _ lt le] Cons.prems(1)
    obtain r where r: "min_loop call b ms d a (min c s) (min best s) = Some (r, b)"
      and br: "bounds a (min c s) (fold min (map ?f ms) (min best s)) r"
      by auto
    have "fold min (map ?f ms) (min s best) = min s ?M"
      by (rule fold_min_min)
    then have "fold min (map ?f ms) (min best s) = min s ?M"
      by (simp only: min.commute [of best s])
    with br have br': "bounds a (min c s) (min s ?M) r" by simp
    have "min_loop call b (m # ms) d a c best = Some (r, b)"
      using s undo False r by (simp add: Let_def)
    moreover have "bounds a c (min (?f m) ?M) r"
      using min_step_go [OF \<open>a < c\<close> \<open>c \<le> best\<close> fold_min_le bs False br'] .
    ultimately show ?thesis using V by simp
  qed
qed

lemma NegInf_least: "NegInf \<le> (x::jsnum)"
  by simp

lemma PosInf_greatest: "(x::jsnum) \<le> PosInf"
  by (cases x) simp_all

lemma minimax_sound: "sound_call (minimax n) n"
proof (induction n)
  case 0
  then show ?case by (simp add: sound_call_def)
next
  case (Suc n)
  show ?case unfolding sound_call_def
  proof (intro allI impI)
    fix b d mx and a c :: jsnum
    assume "length (getAvailableMoves b) < Suc n" and w: "a < c"
    then have le: "length (getAvailableMoves b) \<le> n" by simp
    show "\<exists>r. minimax (Suc n) b d mx a c = Some (r, b) \<and> bounds a c (minimax_plain b d mx) r"
      using max_loop_sound [OF Suc le subset_refl w NegInf_least, of d]
        min_loop_sound [OF Suc le subset_refl w PosInf_greatest, of d]
      by (subst minimax_plain.simps) (simp add: bounds_def)
  qed
qed

lemma bounds_full_window: "bounds NegInf PosInf v r \<Longrightarrow> r = v"
  unfolding bounds_def by (cases r; cases v) (auto simp: less_jsnum_def)

lemma minimax_full_window:
  "length (getAvailableMoves b) < n \<Longrightarrow>
   minimax n b depth isMaximizing NegInf PosInf = Some (minimax_plain b depth isMaximizing, b)"
proof -
  assume "length (getAvailableMoves b) < n"
  moreover have "NegInf < PosInf" by (simp add: less_jsnum_def)
  ultimately obtain r where "minimax n b depth isMaximizing NegInf PosInf = Some (r, b)"
    and "bounds NegInf PosInf (minimax_plain b depth isMaximizing) r"
    using minimax_sound [of n] unfolding sound_call_def by blast
  then show ?thesis using bounds_full_window by blast
qed

text \<open>
  C3. For every board, depth and role, \<^verbatim>\<open>minimax\<close> called with the initial window
  (alpha minus infinity, beta plus infinity) returns the score of the plain exhaustive
  evaluation of the same position: pruning changes which nodes are visited, never the
  score returned.
\<close>

theorem minimax_equals_plain:
  "length (getAvailableMoves b) < n \<Longrightarrow>
   minimax n b depth isMaximizing NegInf PosInf = Some (minimax_plain b depth isMaximizing, b)"
  by (rule minimax_full_window)

theorem minimax_equals_plain_witness:
  "length (getAvailableMoves B2) < 3 \<and>
   minimax 3 B2 0 True NegInf PosInf = Some (Fin 0, B2) \<and> minimax_plain B2 0 True = Fin 0"
proof -
  have h: "length (getAvailableMoves B2) < 3" by code_simp
  have "minimax 3 B2 0 True NegInf PosInf = Some (Fin 0, B2)" by code_simp
  with minimax_equals_plain [OF h, of 0 True] h show ?thesis by simp
qed

section \<open>The snapshot is a copy\<close>

lemma array_assign_other: "a \<noteq> c \<Longrightarrow> deref (array_assign h a i v) c = deref h c"
  by (simp add: array_assign_def deref_def split: option.splits)

lemma array_assign_next: "next_addr (array_assign h a i v) = next_addr h"
  by (simp add: array_assign_def split: option.splits)

lemma assign_all_other: "a \<noteq> c \<Longrightarrow> deref (assign_all h a ws) c = deref h c"
  unfolding assign_all_def
  by (induction ws arbitrary: h) (auto simp: array_assign_other)

lemma assign_all_next: "next_addr (assign_all h a ws) = next_addr h"
  unfolding assign_all_def
  by (induction ws arbitrary: h) (auto simp: array_assign_next)

lemma alloc_other: "c < next_addr h \<Longrightarrow> deref (snd (alloc h xs)) c = deref h c"
  by (simp add: alloc_def deref_def)

lemma alloc_new: "deref (snd (alloc h xs)) (fst (alloc h xs)) = xs"
  by (simp add: alloc_def deref_def)

lemma new_Board_obj_allocated:
  "new_Board_obj h = (obj, h') \<Longrightarrow> cells_ref obj < next_addr h' \<and> board_of h' obj = new_Board"
  by (auto simp: new_Board_obj_def alloc_def board_of_def deref_def new_Board_def initialize_def)

text \<open>
  C9. \<^verbatim>\<open>getBoard\<close> returns an independent copy of the slots: the array returned holds the
  elements of \<^verbatim>\<open>cells\<close>, and after any assignments to elements of the returned array the
  Board reads as before, through \<^verbatim>\<open>getCell\<close>, \<^verbatim>\<open>getCellByIndex\<close> and a later \<^verbatim>\<open>getBoard\<close>.
\<close>

theorem getBoard_independent:
  assumes "cells_ref obj < next_addr h"
    and "getBoard_obj h obj = (a, h1)"
    and "h2 = assign_all h1 a ws"
    and "getBoard_obj h2 obj = (a', h3)"
  shows "deref h1 a = cells (board_of h obj) \<and>
         getCell (board_of h2 obj) row col = getCell (board_of h obj) row col \<and>
         getCellByIndex (board_of h2 obj) index = getCellByIndex (board_of h obj) index \<and>
         deref h3 a' = cells (board_of h obj) \<and> a' \<noteq> a"
proof -
  from assms(2) have a: "a = next_addr h" and h1: "h1 = snd (alloc h (cells (board_of h obj)))"
    by (auto simp: getBoard_obj_def getBoard_def alloc_def)
  have c1: "deref h1 a = cells (board_of h obj)"
    using assms(2) alloc_new [of h "cells (board_of h obj)"]
    by (simp add: getBoard_obj_def getBoard_def)
  have ne: "a \<noteq> cells_ref obj" using a assms(1) by simp
  have "deref h2 (cells_ref obj) = deref h1 (cells_ref obj)"
    unfolding assms(3) using ne by (rule assign_all_other)
  also have "\<dots> = deref h (cells_ref obj)"
    unfolding h1 using assms(1) by (rule alloc_other)
  finally have same: "board_of h2 obj = board_of h obj"
    by (simp add: board_of_def)
  have "next_addr h2 = Suc (next_addr h)"
    unfolding assms(3) assign_all_next h1 by (simp add: alloc_def)
  then have a': "a' \<noteq> a" using assms(4) a by (auto simp: getBoard_obj_def alloc_def)
  have "deref h3 a' = cells (board_of h2 obj)"
    using assms(4) alloc_new [of h2 "cells (board_of h2 obj)"]
    by (simp add: getBoard_obj_def getBoard_def)
  with same c1 a' show ?thesis by simp
qed

theorem getBoard_independent_witness:
  "(let (obj, h) = new_Board_obj empty_heap;
        (a, h1) = getBoard_obj h obj;
        h2 = assign_all h1 a [(0, Str ''X''), (4, Str ''O''), (12, Str ''X''), (- 1, Null)]
    in cells_ref obj < next_addr h \<and>
       deref h2 a \<noteq> deref h1 a \<and>
       getCellByIndex (board_of h2 obj) 0 = Null \<and>
       getCell (board_of h2 obj) 1 1 = Null \<and>
       deref (snd (getBoard_obj h2 obj)) (fst (getBoard_obj h2 obj)) = replicate 9 Null)"
proof -
  obtain obj h where n: "new_Board_obj empty_heap = (obj, h)" by (cases "new_Board_obj empty_heap")
  obtain a h1 where g: "getBoard_obj h obj = (a, h1)" by (cases "getBoard_obj h obj")
  define h2 where "h2 = assign_all h1 a [(0, Str ''X''), (4, Str ''O''), (12, Str ''X''), (- 1, Null)]"
  obtain a' h3 where g': "getBoard_obj h2 obj = (a', h3)" by (cases "getBoard_obj h2 obj")
  have al: "cells_ref obj < next_addr h" and b0: "board_of h obj = new_Board"
    using new_Board_obj_allocated [OF n] by simp_all
  have c: "cells new_Board = replicate 9 Null" by (simp add: new_Board_def initialize_def)
  have r: "getCellByIndex new_Board 0 = Null" "getCell new_Board 1 1 = Null"
    by (simp_all add: getCellByIndex_def getCell_def isValid_def toIndex_def cell_at_def c)
  have d1: "deref h1 a = replicate 9 Null"
    using getBoard_independent [OF al g h2_def g'] b0 c by simp
  have "arrays h1 a = Some (replicate 9 Null)"
    using g by (auto simp: getBoard_obj_def alloc_def getBoard_def b0 c)
  then have "length (deref h2 a) = 13"
    by (simp add: h2_def assign_all_def array_assign_def deref_def assign_elem_def)
  with d1 have ne: "deref h2 a \<noteq> deref h1 a" by auto
  show ?thesis
    using getBoard_independent [OF al g h2_def g', of 1 1 0] al ne b0 c r n g g'
    by (simp add: h2_def)
qed

section \<open>The sign of a score and forced wins\<close>

lemma jsnum_less [simp]:
  "NegInf < Fin x" "Fin x < PosInf" "NegInf < PosInf" "(Fin x < Fin y) = (x < y)"
  by (auto simp: less_jsnum_def)

lemma jsnum_not_less [simp]: "\<not> PosInf < z" "\<not> z < NegInf"
  by (cases z, simp_all add: less_jsnum_def)+

lemma holds_line_update:
  "m < length b \<Longrightarrow> v \<noteq> p \<Longrightarrow> holds_line (b[m := v]) p x y z \<Longrightarrow> holds_line b p x y z"
  by (auto simp: holds_line_def cell_update split: if_splits)

lemma has_line_update:
  "m < length b \<Longrightarrow> v \<noteq> p \<Longrightarrow> has_line (b[m := v]) p \<Longrightarrow> has_line b p"
  unfolding has_line_unfold using holds_line_update [of m b v p] by blast

lemma checkWin_update:
  "m < length b \<Longrightarrow> v \<noteq> p \<Longrightarrow> checkWin b p = None \<Longrightarrow> checkWin (b[m := v]) p = None"
  using has_line_update [of m b v p] checkWin_iff [of b p] checkWin_iff [of "b[m := v]" p]
  by blast

lemma result_ongoing_iff:
  "getGameResult b = ''ONGOING'' \<longleftrightarrow>
     checkWin b (Str ''X'') = None \<and> checkWin b (Str ''O'') = None \<and> \<not> checkDraw b"
  by (simp add: getGameResult_def del: not_None_eq)

lemma result_player_won_iff: "getGameResult b = ''PLAYER_WON'' \<longleftrightarrow> checkWin b (Str ''X'') \<noteq> None"
  by (simp add: getGameResult_def del: not_None_eq)

lemma fold_max_less_iff: "fold max ys z < c \<longleftrightarrow> z < c \<and> (\<forall>y \<in> set ys. y < (c::jsnum))"
  by (induction ys arbitrary: z) auto

lemma fold_min_less_iff: "fold min ys z < c \<longleftrightarrow> z < c \<or> (\<exists>y \<in> set ys. y < (c::jsnum))"
  by (induction ys arbitrary: z) (auto simp: min_less_iff_disj)

lemma available_length_update:
  "m \<in> set (getAvailableMoves b) \<Longrightarrow> v \<noteq> Null \<Longrightarrow>
   int (length (getAvailableMoves (b[m := v]))) + 1 \<le> int (length (getAvailableMoves b))"
  using available_decreases [of m b v] by simp

lemma plain_negative_iff:
  "no_both b \<Longrightarrow> d + int (length (getAvailableMoves b)) \<le> 9 \<Longrightarrow>
   (minimax_plain b d mx < Fin 0) = lost mx b"
proof (induction b d mx rule: minimax_plain.induct)
  case (1 b depth isMaximizing)
  have d9: "depth \<le> 9" using "1.prems"(2) by simp
  show ?case
  proof (cases "checkWin b (Str ''O'') \<noteq> None")
    case True
    then have x: "checkWin b (Str ''X'') = None" using "1.prems"(1) by (auto simp: no_both_def)
    have "minimax_plain b depth isMaximizing = Fin (10 - depth)"
      using True by (subst minimax_plain.simps) simp
    moreover have "\<not> lost isMaximizing b"
      unfolding lost_def using True x
      by (subst x_wins.simps) (simp add: getGameResult_def del: not_None_eq)
    ultimately show ?thesis using d9 by simp
  next
    case noO: False
    show ?thesis
    proof (cases "checkWin b (Str ''X'') \<noteq> None")
      case True
      have "minimax_plain b depth isMaximizing = Fin (depth - 10)"
        using True noO by (subst minimax_plain.simps) simp
      moreover have "lost isMaximizing b"
        using True by (simp add: lost_def getGameResult_def del: not_None_eq)
      ultimately show ?thesis using d9 by simp
    next
      case noX: False
      show ?thesis
      proof (cases "checkDraw b")
        case True
        have "minimax_plain b depth isMaximizing = Fin 0"
          using True noO noX by (subst minimax_plain.simps) simp
        moreover have "\<not> lost isMaximizing b"
          unfolding lost_def using True noO noX
          by (subst x_wins.simps) (simp add: getGameResult_def del: not_None_eq)
        ultimately show ?thesis by simp
      next
        case noD: False
        have noX': "checkWin b (Str ''X'') = None" and noO': "checkWin b (Str ''O'') = None"
          using noX noO by blast+
        have ongoing: "getGameResult b = ''ONGOING''"
          using noO noX noD by (simp add: getGameResult_def del: not_None_eq)
        show ?thesis
        proof (cases isMaximizing)
          case True
          let ?f = "\<lambda>move. minimax_plain (b[move := Str ''O'']) (depth + 1) False"
          have child: "(?f m < Fin 0) = x_wins False (b[m := Str ''O''])"
            if m: "m \<in> set (getAvailableMoves b)" for m
          proof -
            have len: "m < length b" using m available_D by blast
            have cx: "checkWin (b[m := Str ''O'']) (Str ''X'') = None"
              using checkWin_update [OF len _ noX', of "Str ''O''"] by simp
            then have nb: "no_both (b[m := Str ''O''])" by (simp add: no_both_def)
            have dd: "depth + 1 + int (length (getAvailableMoves (b[m := Str ''O'']))) \<le> 9"
              using available_length_update [OF m, of "Str ''O''"] "1.prems"(2) by simp
            have "(?f m < Fin 0) = lost False (b[m := Str ''O''])"
              using "1.IH"(1) [OF noO noX noD True m nb dd] .
            then show ?thesis using cx by (simp add: lost_def result_player_won_iff)
          qed
          have "minimax_plain b depth isMaximizing = fold max (map ?f (getAvailableMoves b)) NegInf"
            using True noO noX noD by (subst minimax_plain.simps) simp
          then have "(minimax_plain b depth isMaximizing < Fin 0) =
              (\<forall>m \<in> set (getAvailableMoves b). ?f m < Fin 0)"
            by (simp add: fold_max_less_iff)
          also have "\<dots> = (\<forall>m \<in> set (getAvailableMoves b). x_wins False (b[m := Str ''O'']))"
            using child by simp
          also have "\<dots> = x_wins True b"
            using ongoing by (subst (2) x_wins.simps) (simp add: list_all_iff)
          finally show ?thesis
            using True noX by (simp add: lost_def result_player_won_iff)
        next
          case False
          let ?f = "\<lambda>move. minimax_plain (b[move := Str ''X'']) (depth + 1) True"
          have child: "(?f m < Fin 0) = lost True (b[m := Str ''X''])"
            if m: "m \<in> set (getAvailableMoves b)" for m
          proof -
            have len: "m < length b" using m available_D by blast
            have cx: "checkWin (b[m := Str ''X'']) (Str ''O'') = None"
              using checkWin_update [OF len _ noO', of "Str ''X''"] by simp
            then have nb: "no_both (b[m := Str ''X''])" by (simp add: no_both_def)
            have dd: "depth + 1 + int (length (getAvailableMoves (b[m := Str ''X'']))) \<le> 9"
              using available_length_update [OF m, of "Str ''X''"] "1.prems"(2) by simp
            show ?thesis
              using "1.IH"(2) [OF noO noX noD False m nb dd] .
          qed
          have "minimax_plain b depth isMaximizing = fold min (map ?f (getAvailableMoves b)) PosInf"
            using False noO noX noD by (subst minimax_plain.simps) simp
          then have "(minimax_plain b depth isMaximizing < Fin 0) =
              (\<exists>m \<in> set (getAvailableMoves b). ?f m < Fin 0)"
            by (simp add: fold_min_less_iff)
          also have "\<dots> = (\<exists>m \<in> set (getAvailableMoves b). lost True (b[m := Str ''X'']))"
            using child by simp
          also have "\<dots> = x_wins False b"
            using ongoing by (subst x_wins.simps) (simp add: list_ex_iff lost_def)
          finally show ?thesis
            using False noX by (simp add: lost_def result_player_won_iff)
        qed
      qed
    qed
  qed
qed

section \<open>The move chosen by getMinimaxMove\<close>

lemma getMinimaxMove_loop_best:
  assumes n: "length (getAvailableMoves b) \<le> n" and ms: "set ms \<subseteq> set (getAvailableMoves b)"
  shows "\<exists>res sc. getMinimaxMove_loop n b ms bm bs = Some res \<and> bs \<le> sc \<and>
           (\<forall>m \<in> set ms. move_score b m \<le> sc) \<and>
           ((res = bm \<and> sc = bs) \<or> (\<exists>m \<in> set ms. res = Some m \<and> sc = move_score b m))"
  using ms
proof (induction ms arbitrary: bm bs)
  case Nil
  then show ?case by simp
next
  case (Cons m ms)
  then have m: "m \<in> set (getAvailableMoves b)" and sub: "set ms \<subseteq> set (getAvailableMoves b)"
    by simp_all
  have "length (getAvailableMoves (b[m := Str ''O''])) < n"
    using available_decreases [OF m, of "Str ''O''"] n by simp
  then have call: "minimax n (b[m := Str ''O'']) 0 False NegInf PosInf =
      Some (move_score b m, b[m := Str ''O''])"
    unfolding move_score_def by (rule minimax_full_window)
  have undo: "(b[m := Str ''O''])[m := Null] = b"
    using m available_D undo_move by blast
  show ?case
  proof (cases "bs < move_score b m")
    case True
    obtain res sc where r: "getMinimaxMove_loop n b ms (Some m) (move_score b m) = Some res"
      and sc: "move_score b m \<le> sc" "\<forall>m' \<in> set ms. move_score b m' \<le> sc"
      and w: "(res = Some m \<and> sc = move_score b m) \<or>
              (\<exists>m' \<in> set ms. res = Some m' \<and> sc = move_score b m')"
      using Cons.IH [OF sub, of "Some m" "move_score b m"] by blast
    have "getMinimaxMove_loop n b (m # ms) bm bs = Some res"
      using call undo True r by simp
    moreover have "bs \<le> sc" using True sc(1) by simp
    moreover have "\<exists>m' \<in> set (m # ms). res = Some m' \<and> sc = move_score b m'"
      using w by auto
    ultimately show ?thesis using sc by auto
  next
    case False
    obtain res sc where r: "getMinimaxMove_loop n b ms bm bs = Some res"
      and sc: "bs \<le> sc" "\<forall>m' \<in> set ms. move_score b m' \<le> sc"
      and w: "(res = bm \<and> sc = bs) \<or> (\<exists>m' \<in> set ms. res = Some m' \<and> sc = move_score b m')"
      using Cons.IH [OF sub, of bm bs] by blast
    have "getMinimaxMove_loop n b (m # ms) bm bs = Some res"
      using call undo False r by simp
    moreover have "move_score b m \<le> sc" using False sc(1) by simp
    ultimately show ?thesis using sc w by auto
  qed
qed

lemma getMinimaxMove_best:
  assumes n: "length (getAvailableMoves b) \<le> n" and m0: "m0 \<in> set (getAvailableMoves b)"
    and s0: "NegInf < move_score b m0"
  shows "\<exists>m. getMinimaxMove n b = Some (Some m) \<and> m \<in> set (getAvailableMoves b) \<and>
           (\<forall>m' \<in> set (getAvailableMoves b). move_score b m' \<le> move_score b m)"
proof -
  obtain res sc where r: "getMinimaxMove_loop n b (getAvailableMoves b) None NegInf = Some res"
    and sc: "\<forall>m \<in> set (getAvailableMoves b). move_score b m \<le> sc"
    and w: "(res = None \<and> sc = NegInf) \<or>
            (\<exists>m \<in> set (getAvailableMoves b). res = Some m \<and> sc = move_score b m)"
    using getMinimaxMove_loop_best [OF n subset_refl, of None NegInf] by blast
  have "NegInf < sc" using sc m0 s0 by auto
  then obtain m where "m \<in> set (getAvailableMoves b)" "res = Some m" "sc = move_score b m"
    using w by auto
  moreover have "getMinimaxMove n b = Some res"
    using r m0 by (auto simp: getMinimaxMove_def Let_def)
  ultimately show ?thesis using sc by auto
qed

lemma child_not_lost_iff:
  assumes m: "m \<in> set (getAvailableMoves b)" and x: "checkWin b (Str ''X'') = None"
  shows "(move_score b m < Fin 0) = x_wins False (b[m := Str ''O''])"
proof -
  have len: "m < length b" using m available_D by blast
  have cx: "checkWin (b[m := Str ''O'']) (Str ''X'') = None"
    using checkWin_update [OF len _ x, of "Str ''O''"] by simp
  then have nb: "no_both (b[m := Str ''O''])" by (simp add: no_both_def)
  have "length (getAvailableMoves (b[m := Str ''O''])) \<le> 9" by (rule available_le_9)
  then have dd: "0 + int (length (getAvailableMoves (b[m := Str ''O'']))) \<le> 9" by simp
  have "(move_score b m < Fin 0) = lost False (b[m := Str ''O''])"
    unfolding move_score_def using plain_negative_iff [OF nb dd] .
  then show ?thesis using cx by (simp add: lost_def result_player_won_iff)
qed

lemma safe_step:
  assumes on: "getGameResult b = ''ONGOING''" and safe: "\<not> x_wins True b"
    and n: "length (getAvailableMoves b) \<le> n"
  shows "\<exists>m. getMinimaxMove n b = Some (Some m) \<and> m \<in> set (getAvailableMoves b) \<and>
           \<not> x_wins False (b[m := Str ''O''])"
proof -
  have x: "checkWin b (Str ''X'') = None" using on by (simp add: result_ongoing_iff)
  from safe on obtain m0 where m0: "m0 \<in> set (getAvailableMoves b)"
    and s0: "\<not> x_wins False (b[m0 := Str ''O''])"
    by (subst (asm) x_wins.simps) (auto simp: list_all_iff)
  have "\<not> move_score b m0 < Fin 0" using child_not_lost_iff [OF m0 x] s0 by simp
  then have ge0: "Fin 0 \<le> move_score b m0" by simp
  then have "NegInf < move_score b m0" by (cases "move_score b m0") simp_all
  then obtain m where g: "getMinimaxMove n b = Some (Some m)" and m: "m \<in> set (getAvailableMoves b)"
    and best: "move_score b m0 \<le> move_score b m"
    using getMinimaxMove_best [OF n m0] m0 by blast
  have "\<not> move_score b m < Fin 0" using ge0 best by simp
  then have "\<not> x_wins False (b[m := Str ''O''])" using child_not_lost_iff [OF m x] by simp
  with g m show ?thesis by blast
qed

lemma ai_loses_not_safe:
  assumes "ai_loses n b" and "9 \<le> n"
  shows "x_wins True b"
  using assms(1)
proof (induction rule: ai_loses.induct)
  case (loses_next b m k)
  have n: "length (getAvailableMoves b) \<le> n"
    using available_le_9 [of b] assms(2) by simp
  show ?case
  proof (rule ccontr)
    assume "\<not> x_wins True b"
    then obtain m' where "getMinimaxMove n b = Some (Some m')"
      and "\<not> x_wins False (b[m' := Str ''O''])"
      using safe_step [OF loses_next(1) _ n] by blast
    then have "\<not> x_wins False (b[m := Str ''O''])" using loses_next(2) by simp
    moreover have "x_wins False (b[m := Str ''O''])"
      using loses_next(3,4,5) by (subst x_wins.simps) (auto simp: list_ex_iff)
    ultimately show False by simp
  qed
next
  case (loses_later b m k)
  have n: "length (getAvailableMoves b) \<le> n"
    using available_le_9 [of b] assms(2) by simp
  show ?case
  proof (rule ccontr)
    assume "\<not> x_wins True b"
    then obtain m' where "getMinimaxMove n b = Some (Some m')"
      and "\<not> x_wins False (b[m' := Str ''O''])"
      using safe_step [OF loses_later(1) _ n] by blast
    then have "\<not> x_wins False (b[m := Str ''O''])" using loses_later(2) by simp
    moreover have "x_wins False (b[m := Str ''O''])"
      using loses_later(3,4,7) by (subst x_wins.simps) (auto simp: list_ex_iff)
    ultimately show False by simp
  qed
qed

section \<open>A strategy tree that holds\<close>

lemma check_all_D:
  "check_all (map f ts) b ks \<Longrightarrow> k \<in> set ks \<Longrightarrow> \<exists>t \<in> set ts. f t (b[k := Str ''X''])"
proof (induction ts arbitrary: ks)
  case Nil
  then show ?case by (cases ks) simp_all
next
  case (Cons t ts)
  then show ?case by (cases ks) (auto split: if_splits)
qed

lemma available_I: "cell b m = Null \<Longrightarrow> m < 9 \<Longrightarrow> m \<in> set (getAvailableMoves b)"
  by (simp add: getAvailableMoves_def)

lemma x_wins_False_iff:
  "x_wins False b \<longleftrightarrow>
     getGameResult b = ''ONGOING'' \<and>
     (\<exists>k \<in> set (getAvailableMoves b). lost True (b[k := Str ''X'']))"
  by (subst x_wins.simps) (simp add: list_ex_iff lost_def)

lemma x_wins_True_iff:
  "x_wins True b \<longleftrightarrow>
     getGameResult b = ''ONGOING'' \<and>
     (\<forall>m \<in> set (getAvailableMoves b). x_wins False (b[m := Str ''O'']))"
  by (subst x_wins.simps) (simp add: list_all_iff)

lemma holds_reply_sound: "holds_reply t b \<Longrightarrow> \<not> lost True b"
proof (induction t arbitrary: b)
  case (Reply m ts)
  let ?b' = "b[m := Str ''O'']"
  from Reply.prems have noX: "checkWin b (Str ''X'') = None"
    by (simp del: not_None_eq split: if_splits)
  then have notwon: "getGameResult b \<noteq> ''PLAYER_WON''"
    by (simp add: result_player_won_iff)
  show ?case
  proof (cases "getGameResult b = ''ONGOING''")
    case False
    then show ?thesis using notwon by (simp add: lost_def x_wins_True_iff)
  next
    case True
    then have t: "checkWin b (Str ''O'') = None" "\<not> checkDraw b"
      by (simp_all add: result_ongoing_iff)
    with Reply.prems noX have m: "cell b m = Null" "m < 9"
      and rest: "checkWin ?b' (Str ''O'') \<noteq> None \<or> checkDraw ?b' \<or>
        check_all (map holds_reply ts) ?b' (getAvailableMoves ?b')"
      by (simp_all add: Let_def del: not_None_eq split: if_splits)
    have av: "m \<in> set (getAvailableMoves b)" using m by (rule available_I)
    have "\<not> x_wins False ?b'"
    proof (cases "getGameResult ?b' = ''ONGOING''")
      case False
      then show ?thesis by (simp add: x_wins_False_iff)
    next
      case on: True
      then have "check_all (map holds_reply ts) ?b' (getAvailableMoves ?b')"
        using rest by (simp add: result_ongoing_iff del: not_None_eq)
      then have "\<not> lost True (?b'[k := Str ''X''])" if "k \<in> set (getAvailableMoves ?b')" for k
        using check_all_D [OF _ that] Reply.IH by blast
      then show ?thesis by (auto simp: x_wins_False_iff)
    qed
    then have "\<not> x_wins True b" using av by (auto simp: x_wins_True_iff)
    then show ?thesis using notwon by (simp add: lost_def)
  qed
qed

lemma check_all_sound:
  "check_all (map holds_reply ts) b (getAvailableMoves b) \<Longrightarrow> \<not> x_wins False b"
  using check_all_D [of holds_reply ts b "getAvailableMoves b"] holds_reply_sound
  by (auto simp: x_wins_False_iff)

lemma second_player_holds:
  "check_all (map holds_reply second_player_replies) empty_board
     (getAvailableMoves empty_board)"
  by code_simp

lemma centre_opening_holds:
  "check_all (map holds_reply centre_opening_replies) (empty_board[4 := Str ''O''])
     (getAvailableMoves (empty_board[4 := Str ''O'']))"
  by code_simp

lemma empty_board_X_to_move: "\<not> x_wins False empty_board"
  using second_player_holds by (rule check_all_sound)

lemma centre_board_X_to_move: "\<not> x_wins False (empty_board[4 := Str ''O''])"
  using centre_opening_holds by (rule check_all_sound)

lemma empty_board_ongoing: "getGameResult empty_board = ''ONGOING''"
  by code_simp

lemma empty_board_O_to_move: "\<not> x_wins True empty_board"
proof -
  have "4 \<in> set (getAvailableMoves empty_board)" by code_simp
  then show ?thesis using centre_board_X_to_move by (auto simp: x_wins_True_iff)
qed

section \<open>Exchanging the markers\<close>

lemma cell_swap: "cell (swap_markers b) i = swap_marker (cell b i)"
  by (simp add: cell_def swap_markers_def swap_marker_def)

lemma swap_marker_eq [simp]:
  "swap_marker c = Null \<longleftrightarrow> c = Null"
  "swap_marker c = Str ''X'' \<longleftrightarrow> c = Str ''O''"
  "swap_marker c = Str ''O'' \<longleftrightarrow> c = Str ''X''"
  by (auto simp: swap_marker_def)

lemma holds_line_swap:
  "holds_line (swap_markers b) (Str ''X'') x y z = holds_line b (Str ''O'') x y z"
  "holds_line (swap_markers b) (Str ''O'') x y z = holds_line b (Str ''X'') x y z"
  by (simp_all add: holds_line_def cell_swap)

lemma has_line_swap:
  "has_line (swap_markers b) (Str ''X'') = has_line b (Str ''O'')"
  "has_line (swap_markers b) (Str ''O'') = has_line b (Str ''X'')"
  by (simp_all only: has_line_unfold holds_line_swap)

lemma checkWin_swap:
  "checkWin (swap_markers b) (Str ''X'') = None \<longleftrightarrow> checkWin b (Str ''O'') = None"
  "checkWin (swap_markers b) (Str ''O'') = None \<longleftrightarrow> checkWin b (Str ''X'') = None"
proof -
  have "(checkWin (swap_markers b) (Str ''X'') \<noteq> None) = (checkWin b (Str ''O'') \<noteq> None)"
    "(checkWin (swap_markers b) (Str ''O'') \<noteq> None) = (checkWin b (Str ''X'') \<noteq> None)"
    by (simp_all only: checkWin_iff has_line_swap)
  then show "checkWin (swap_markers b) (Str ''X'') = None \<longleftrightarrow> checkWin b (Str ''O'') = None"
    "checkWin (swap_markers b) (Str ''O'') = None \<longleftrightarrow> checkWin b (Str ''X'') = None"
    by blast+
qed

lemma checkDraw_swap: "checkDraw (swap_markers b) = checkDraw b"
proof -
  have "list_all (\<lambda>c. c \<noteq> Null) (swap_markers b) = list_all (\<lambda>c. c \<noteq> Null) b"
    by (simp add: swap_markers_def list_all_iff)
  then show ?thesis
    using checkWin_swap [of b] by (simp add: checkDraw_def del: not_None_eq)
qed

lemma ongoing_swap: "getGameResult (swap_markers b) = ''ONGOING'' \<longleftrightarrow> getGameResult b = ''ONGOING''"
  by (auto simp: result_ongoing_iff checkWin_swap checkDraw_swap)

lemma available_swap: "getAvailableMoves (swap_markers b) = getAvailableMoves b"
  by (simp add: getAvailableMoves_def cell_swap)

lemma update_swap:
  "(swap_markers b)[m := Str ''O''] = swap_markers (b[m := Str ''X''])"
  by (simp add: swap_markers_def map_update swap_marker_def)

section \<open>Optimal play\<close>

lemma not_lost_after_O:
  assumes "getGameResult b = ''ONGOING''" "m \<in> set (getAvailableMoves b)"
    "\<not> x_wins False (b[m := Str ''O''])"
  shows "\<not> lost False (b[m := Str ''O''])"
proof -
  have "m < length b" using assms(2) available_D by blast
  moreover have "checkWin b (Str ''X'') = None" using assms(1) by (simp add: result_ongoing_iff)
  ultimately have "checkWin (b[m := Str ''O'']) (Str ''X'') = None"
    using checkWin_update [of m b "Str ''O''" "Str ''X''"] by simp
  then show ?thesis using assms(3) by (simp add: lost_def result_player_won_iff)
qed

text \<open>
  Where neither side can force a win (\<^verbatim>\<open>'X'\<close> on the board, \<^verbatim>\<open>'O'\<close> on the board with
  the markers exchanged), the game of the two searches keeps it so and ends in a draw.
\<close>

lemma self_play_draw:
  assumes n: "9 \<le> n"
  shows "\<not> lost oToMove b \<Longrightarrow> \<not> lost (\<not> oToMove) (swap_markers b) \<Longrightarrow>
         length (getAvailableMoves b) \<le> j \<Longrightarrow> self_play n j oToMove b = Some ''DRAW''"
proof (induction j arbitrary: b oToMove)
  case 0
  then have av: "getAvailableMoves b = []" by simp
  have "getGameResult b \<noteq> ''ONGOING''"
  proof
    assume on: "getGameResult b = ''ONGOING''"
    then have "x_wins True b" "x_wins True (swap_markers b)"
      using av by (simp_all add: x_wins_True_iff ongoing_swap available_swap)
    then show False using "0.prems"(1,2) by (cases oToMove) (simp_all add: lost_def)
  qed
  moreover have "getGameResult b \<noteq> ''PLAYER_WON''" "checkWin b (Str ''O'') = None"
    using "0.prems"(1,2) checkWin_swap(1) [of b]
    by (simp_all add: lost_def result_player_won_iff del: not_None_eq)
  ultimately show ?case
    by (auto simp: getGameResult_def simp del: not_None_eq split: if_splits)
next
  case (Suc j)
  have nothing_won: "getGameResult b \<noteq> ''PLAYER_WON''" "checkWin b (Str ''O'') = None"
    using Suc.prems(1,2) checkWin_swap(1) [of b]
    by (simp_all add: lost_def result_player_won_iff del: not_None_eq)
  show ?case
  proof (cases "getGameResult b = ''ONGOING''")
    case False
    then show ?thesis using nothing_won
      by (auto simp: getGameResult_def simp del: not_None_eq split: if_splits)
  next
    case on: True
    have nb: "length (getAvailableMoves b) \<le> n"
      using available_le_9 [of b] n by simp
    show ?thesis
    proof (cases oToMove)
      case True
      have "\<not> x_wins True b" using Suc.prems(1) True by (simp add: lost_def)
      then obtain m where g: "getMinimaxMove n b = Some (Some m)"
        and m: "m \<in> set (getAvailableMoves b)" and safe: "\<not> x_wins False (b[m := Str ''O''])"
        using safe_step [OF on _ nb] by blast
      have a: "\<not> lost False (b[m := Str ''O''])"
        using not_lost_after_O [OF on m safe] .
      have "\<not> x_wins False (swap_markers b)" using Suc.prems(2) True by (simp add: lost_def)
      then have "\<not> lost True ((swap_markers b)[m := Str ''X''])"
        using on m by (auto simp: x_wins_False_iff ongoing_swap available_swap)
      moreover have "(swap_markers b)[m := Str ''X''] = swap_markers (b[m := Str ''O''])"
        by (simp add: swap_markers_def map_update swap_marker_def)
      ultimately have c: "\<not> lost (\<not> False) (swap_markers (b[m := Str ''O'']))" by simp
      have "length (getAvailableMoves (b[m := Str ''O''])) \<le> j"
        using available_decreases [OF m, of "Str ''O''"] Suc.prems(3) by simp
      then have "self_play n j False (b[m := Str ''O'']) = Some ''DRAW''"
        using Suc.IH [OF a c] by simp
      then show ?thesis using on True g by simp
    next
      case False
      let ?s = "swap_markers b"
      have on': "getGameResult ?s = ''ONGOING''" using on by (simp add: ongoing_swap)
      have nb': "length (getAvailableMoves ?s) \<le> n" using nb by (simp add: available_swap)
      have "\<not> x_wins True ?s" using Suc.prems(2) False by (simp add: lost_def)
      then obtain m where g: "getMinimaxMove n ?s = Some (Some m)"
        and m': "m \<in> set (getAvailableMoves ?s)" and safe: "\<not> x_wins False (?s[m := Str ''O''])"
        using safe_step [OF on' _ nb'] by blast
      have m: "m \<in> set (getAvailableMoves b)" using m' by (simp add: available_swap)
      have "\<not> lost False (?s[m := Str ''O''])"
        using not_lost_after_O [OF on' m' safe] .
      then have c: "\<not> lost (\<not> True) (swap_markers (b[m := Str ''X'']))"
        by (simp add: update_swap)
      have "\<not> x_wins False b" using Suc.prems(1) False by (simp add: lost_def)
      then have a: "\<not> lost True (b[m := Str ''X''])"
        using on m by (auto simp: x_wins_False_iff)
      have "length (getAvailableMoves (b[m := Str ''X''])) \<le> j"
        using available_decreases [OF m, of "Str ''X''"] Suc.prems(3) by simp
      then have "self_play n j True (b[m := Str ''X'']) = Some ''DRAW''"
        using Suc.IH [OF a c] by simp
      then show ?thesis using on False g by simp
    qed
  qed
qed

lemma swap_empty_board: "swap_markers empty_board = empty_board"
  by (simp add: swap_markers_def empty_board_def swap_marker_def)

lemma self_play_from_empty:
  "9 \<le> n \<Longrightarrow> 9 \<le> j \<Longrightarrow> self_play n j False empty_board = Some ''DRAW''"
proof -
  assume n: "9 \<le> n" and j: "9 \<le> j"
  have a: "\<not> lost False empty_board"
    using empty_board_X_to_move empty_board_ongoing by (simp add: lost_def)
  have c: "\<not> lost (\<not> False) (swap_markers empty_board)"
    using empty_board_O_to_move empty_board_ongoing by (simp add: lost_def swap_empty_board)
  have "length (getAvailableMoves empty_board) \<le> j"
    using available_le_9 [of empty_board] j by simp
  then show ?thesis using self_play_draw [OF n a c] by simp
qed

lemma first_move_safe:
  assumes "9 \<le> n" "k \<in> set (getAvailableMoves empty_board)"
  shows "\<not> ai_loses n (empty_board[k := Str ''X''])"
proof
  assume "ai_loses n (empty_board[k := Str ''X''])"
  then have "x_wins True (empty_board[k := Str ''X''])"
    using assms(1) by (rule ai_loses_not_safe)
  then have "x_wins False empty_board"
    using assms(2) empty_board_ongoing by (auto simp: x_wins_False_iff lost_def)
  then show False using empty_board_X_to_move by simp
qed

text \<open>
  C1, as amended. For every position of a game in progress with \<^verbatim>\<open>'O'\<close> to move in which
  \<^verbatim>\<open>'X'\<close> has no forced win, \<^verbatim>\<open>getMinimaxMove\<close> returns an empty slot and, with \<^verbatim>\<open>'O'\<close> playing
  the moves of \<^verbatim>\<open>getMinimaxMove\<close> from there on, no sequence of replies of \<^verbatim>\<open>'X'\<close> ends in
  a win for \<^verbatim>\<open>'X'\<close>. This covers the empty board after any first move of \<^verbatim>\<open>'X'\<close>. A game
  from the empty board in which both sides play the move of \<^verbatim>\<open>getMinimaxMove\<close> ends in a
  draw.
\<close>

theorem optimal_never_loses:
  assumes "9 \<le> n"
  shows "(getGameResult b = ''ONGOING'' \<and> \<not> x_wins True b \<longrightarrow>
            (\<exists>m. getMinimaxMove n b = Some (Some m) \<and> m \<in> set (getAvailableMoves b)) \<and>
            \<not> ai_loses n b) \<and>
         (\<forall>k \<in> set (getAvailableMoves empty_board). \<not> ai_loses n (empty_board[k := Str ''X''])) \<and>
         (9 \<le> j \<longrightarrow> self_play n j False empty_board = Some ''DRAW'')"
proof (intro conjI impI ballI)
  assume h: "getGameResult b = ''ONGOING'' \<and> \<not> x_wins True b"
  have "length (getAvailableMoves b) \<le> n" using available_le_9 [of b] assms by simp
  then show "\<exists>m. getMinimaxMove n b = Some (Some m) \<and> m \<in> set (getAvailableMoves b)"
    using safe_step [of b n] h by blast
  show "\<not> ai_loses n b" using ai_loses_not_safe [OF _ assms] h by blast
next
  fix k assume "k \<in> set (getAvailableMoves empty_board)"
  then show "\<not> ai_loses n (empty_board[k := Str ''X''])" using assms first_move_safe by blast
next
  assume "9 \<le> j"
  then show "self_play n j False empty_board = Some ''DRAW''"
    using assms self_play_from_empty by blast
qed

theorem optimal_never_loses_witness:
  "getGameResult B2 = ''ONGOING'' \<and> \<not> x_wins True B2 \<and> getMinimaxMove 9 B2 = Some (Some 6) \<and>
   \<not> ai_loses 9 B2 \<and> \<not> ai_loses 9 (empty_board[0 := Str ''X'']) \<and>
   self_play 9 9 False empty_board = Some ''DRAW''"
proof -
  have n: "(9::nat) \<le> 9" by simp
  have h: "getGameResult B2 = ''ONGOING''" "\<not> x_wins True B2" by code_simp+
  have g: "getMinimaxMove 9 B2 = Some (Some 6)" by code_simp
  have k: "0 \<in> set (getAvailableMoves empty_board)" by code_simp
  show ?thesis
    using optimal_never_loses [OF n, of B2 9] h g k by simp
qed

text \<open>
  The position after the moves 0, 1, 4, 8, 3 is reached by legal alternating play and has
  \<^verbatim>\<open>'O'\<close> to move; \<^verbatim>\<open>getMinimaxMove\<close> answers 2, and \<^verbatim>\<open>'X'\<close> wins at once with 5.
\<close>

theorem lost_position_counterexample:
  "play empty_board False [0, 1, 4, 8, 3] = Some lost_position \<and>
   getGameResult lost_position = ''ONGOING'' \<and>
   getMinimaxMove 9 lost_position = Some (Some 2) \<and>
   ai_loses 9 lost_position"
proof -
  have p: "play empty_board False [0, 1, 4, 8, 3] = Some lost_position" by code_simp
  have on: "getGameResult lost_position = ''ONGOING''" by code_simp
  have g: "getMinimaxMove 9 lost_position = Some (Some 2)" by code_simp
  have on': "getGameResult (lost_position[2 := Str ''O'']) = ''ONGOING''" by code_simp
  have k: "5 \<in> set (getAvailableMoves (lost_position[2 := Str ''O'']))" by code_simp
  have w: "getGameResult (lost_position[2 := Str ''O'', 5 := Str ''X'']) = ''PLAYER_WON''"
    by code_simp
  have "ai_loses 9 lost_position" using on g on' k w by (rule loses_next)
  with p on g show ?thesis by simp
qed

section \<open>A reset while the computer move is pending\<close>

text \<open>
  C2 states that a reset during a pending computer move leaves a clean reset state and
  that no stale computer move reaches the board after the reset. The engine does
  otherwise: right after \<^verbatim>\<open>resetGame\<close> the state is clean with one computer move still
  pending, and when its timer fires the move is placed on the new board and the turn passes
  to \<^verbatim>\<open>'O'\<close>, so that the next move of the player is refused. The same happens to a new game
  started before the timer fires.
\<close>

theorem reset_while_ai_pending:
  "(case run 1 (take 3 reset_scenario) gameEngine of
      None \<Rightarrow> False
    | Some e \<Rightarrow> clean_reset_state e \<and> pendingAI e = 1) \<and>
   (case run 1 reset_scenario gameEngine of
      None \<Rightarrow> False
    | Some e \<Rightarrow>
        \<not> clean_reset_state e \<and>
        cells (this_board e) = [Str ''O'', Null, Null, Null, Null, Null, Null, Null, Null] \<and>
        store_board e = [Str ''O'', Null, Null, Null, Null, Null, Null, Null, Null] \<and>
        currentPlayer (this_board e) = ''O'' \<and> status (this_board e) = ''ONGOING'' \<and>
        \<not> store_aiThinking e \<and> pendingAI e = 0 \<and>
        \<not> fst (handlePlayerMove e 1 1)) \<and>
   (case run 1 restart_scenario gameEngine of
      None \<Rightarrow> False
    | Some e \<Rightarrow>
        cells (this_board e) = [Str ''O'', Null, Null, Null, Null, Null, Null, Null, Null] \<and>
        currentPlayer (this_board e) = ''O'' \<and> store_gameStarted e \<and>
        \<not> store_aiThinking e \<and> pendingAI e = 0 \<and>
        \<not> fst (handlePlayerMove e 1 1))"
  by code_simp

end
